theory Spec2Isabelle
  imports Main "HOL-Library.Char_ord" "HOL-Library.List_Lexorder"
begin

section \<open>Python values used by \<open>tools/generate_stops_geojson.py\<close>\<close>

text \<open>
  Python strings are modelled as \<open>string\<close>, every \<open>char\<close> standing for the code point
  of the same number, so the model covers the strings over U+0000..U+00FF. Strings are
  compared and sorted by code point (\<open>Char_ord\<close>, \<open>List_Lexorder\<close>), as Python does.
\<close>

subsection \<open>\<open>str.strip\<close>, \<open>str.lower\<close>, \<open>str.upper\<close>, \<open>str.endswith\<close>\<close>

definition py_isspace :: "char \<Rightarrow> bool" where
  \<comment> \<open>\<open>str.isspace\<close> below U+0100: 9..13, 28..32, 133 and 160.\<close>
  "py_isspace c = (c \<in> set [CHR 0x09, CHR 0x0A, CHR 0x0B, CHR 0x0C, CHR 0x0D,
       CHR 0x1C, CHR 0x1D, CHR 0x1E, CHR 0x1F, CHR 0x20, CHR 0x85, CHR 0xA0])"

definition py_strip :: "string \<Rightarrow> string" where
  "py_strip s = rev (dropWhile py_isspace (rev (dropWhile py_isspace s)))"

definition ascii_lower_char :: "char \<Rightarrow> char" where
  "ascii_lower_char c =
     (case map_of (zip ''ABCDEFGHIJKLMNOPQRSTUVWXYZ'' ''abcdefghijklmnopqrstuvwxyz'') c of
        None \<Rightarrow> c | Some l \<Rightarrow> l)"

definition ascii_upper_char :: "char \<Rightarrow> char" where
  "ascii_upper_char c =
     (case map_of (zip ''abcdefghijklmnopqrstuvwxyz'' ''ABCDEFGHIJKLMNOPQRSTUVWXYZ'') c of
        None \<Rightarrow> c | Some u \<Rightarrow> u)"

definition latin1_capitals :: "(char \<times> char) list" where
  \<comment> \<open>The capitals U+00C0..U+00DE (U+00D7 is the multiplication sign) and their small letters.\<close>
  "latin1_capitals = zip
     [CHR 0xC0, CHR 0xC1, CHR 0xC2, CHR 0xC3, CHR 0xC4, CHR 0xC5, CHR 0xC6, CHR 0xC7, CHR 0xC8, CHR 0xC9, CHR 0xCA, CHR 0xCB, CHR 0xCC, CHR 0xCD, CHR 0xCE, CHR 0xCF,
      CHR 0xD0, CHR 0xD1, CHR 0xD2, CHR 0xD3, CHR 0xD4, CHR 0xD5, CHR 0xD6, CHR 0xD8, CHR 0xD9, CHR 0xDA, CHR 0xDB, CHR 0xDC, CHR 0xDD, CHR 0xDE]
     [CHR 0xE0, CHR 0xE1, CHR 0xE2, CHR 0xE3, CHR 0xE4, CHR 0xE5, CHR 0xE6, CHR 0xE7, CHR 0xE8, CHR 0xE9, CHR 0xEA, CHR 0xEB, CHR 0xEC, CHR 0xED, CHR 0xEE, CHR 0xEF,
      CHR 0xF0, CHR 0xF1, CHR 0xF2, CHR 0xF3, CHR 0xF4, CHR 0xF5, CHR 0xF6, CHR 0xF8, CHR 0xF9, CHR 0xFA, CHR 0xFB, CHR 0xFC, CHR 0xFD, CHR 0xFE]"

definition lower_char :: "char \<Rightarrow> char" where
  \<comment> \<open>\<open>str.lower\<close> below U+0100: A..Z and the capitals of Latin-1 change; every other
      character is unchanged.\<close>
  "lower_char c = (case map_of latin1_capitals c of
       None \<Rightarrow> ascii_lower_char c | Some l \<Rightarrow> l)"

definition py_lower :: "string \<Rightarrow> string" where
  "py_lower s = map lower_char s"

definition endswith :: "string \<Rightarrow> string \<Rightarrow> bool" where
  "endswith s suffix_s =
     (length suffix_s \<le> length s \<and> drop (length s - length suffix_s) s = suffix_s)"

subsection \<open>\<open>x or y\<close> on the results of \<open>dict.get\<close>\<close>

text \<open>
  A row of a table is a dict from field names to strings. \<open>row.get(k)\<close> is \<open>row k\<close>;
  \<open>row.get(k) or d\<close> is \<open>d\<close> when the key is missing or holds the empty string.
\<close>

type_synonym row = "string \<rightharpoonup> string"

definition get_or :: "string option \<Rightarrow> string \<Rightarrow> string" where
  "get_or v d = (case v of None \<Rightarrow> d | Some s \<Rightarrow> if s = [] then d else s)"

subsection \<open>\<open>int(s)\<close> and \<open>float(s)\<close>\<close>

definition is_digit :: "char \<Rightarrow> bool" where
  "is_digit c = (c \<in> set ''0123456789'')"

definition num_space :: "char \<Rightarrow> bool" where
  \<comment> \<open>What \<open>int\<close> and \<open>float\<close> strip from both ends: C's \<open>isspace\<close>, and the Unicode
      spaces U+0085 and U+00A0, which CPython turns into a blank first.\<close>
  "num_space c = (c \<in> set [CHR 0x09, CHR 0x0A, CHR 0x0B, CHR 0x0C, CHR 0x0D, CHR 0x20,
       CHR 0x85, CHR 0xA0])"

definition num_strip :: "string \<Rightarrow> string" where
  "num_strip s = rev (dropWhile num_space (rev (dropWhile num_space s)))"

definition digitish :: "char \<Rightarrow> bool" where
  "digitish c = (is_digit c \<or> c = CHR ''_'')"

fun double_underscore :: "string \<Rightarrow> bool" where
  "double_underscore (a # b # cs) =
     ((a = CHR ''_'' \<and> b = CHR ''_'') \<or> double_underscore (b # cs))"
| "double_underscore cs = False"

definition digitpart_ok :: "string \<Rightarrow> bool" where
  \<comment> \<open>\<open>digit (["_"] digit)*\<close> on a run of digits and underscores.\<close>
  "digitpart_ok ds = (ds \<noteq> [] \<and> hd ds \<noteq> CHR ''_'' \<and> last ds \<noteq> CHR ''_''
      \<and> \<not> double_underscore ds)"

definition digits_of :: "string \<Rightarrow> string" where
  "digits_of ds = filter is_digit ds"

definition digit_value :: "char \<Rightarrow> nat" where
  "digit_value c = (case map_of (zip ''0123456789'' [0, 1, 2, 3, 4, 5, 6, 7, 8, 9]) c of
       None \<Rightarrow> 0 | Some d \<Rightarrow> d)"

definition nat_of_digits :: "string \<Rightarrow> nat" where
  "nat_of_digits ds = foldl (\<lambda>a c. 10 * a + digit_value c) 0 ds"

definition split_sign :: "string \<Rightarrow> bool \<times> string" where
  \<comment> \<open>An optional sign; the flag says the sign is minus.\<close>
  "split_sign s = (case s of
       c # cs \<Rightarrow> if c = CHR ''-'' then (True, cs) else if c = CHR ''+'' then (False, cs)
                 else (False, s)
     | [] \<Rightarrow> (False, s))"

definition py_int :: "nat \<Rightarrow> string \<Rightarrow> int option" where
  \<comment> \<open>\<open>int(s)\<close> in base 10; \<open>None\<close> is ValueError. \<open>max_str_digits\<close> is the interpreter's
      \<open>sys.get_int_max_str_digits()\<close> (4300 by default, 0 for no limit, and always 0 before
      Python 3.11): more digits than that raise ValueError too.\<close>
  "py_int max_str_digits s =
     (let (neg, ds) = split_sign (num_strip s) in
      if \<not> (list_all digitish ds \<and> digitpart_ok ds) then None
      else if 640 < length (digits_of ds) \<and> 0 < max_str_digits
              \<and> max_str_digits < length (digits_of ds) then None
      else Some (if neg then - int (nat_of_digits (digits_of ds))
                 else int (nat_of_digits (digits_of ds))))"

datatype float_lit =
    Nan_lit bool
  | Inf_lit bool
  | Dec_lit bool nat int

text \<open>
  \<open>float_syntax\<close> is the grammar of \<open>float(s)\<close>: blanks around, a sign, then \<open>nan\<close>,
  \<open>inf\<close> or \<open>infinity\<close> in any case, or a decimal number with an optional exponent.
  \<open>Dec_lit neg m e\<close> stands for \<open>m * 10 ^ e\<close>, negated when \<open>neg\<close>. \<open>None\<close> is ValueError.
\<close>

definition parse_exponent :: "string \<Rightarrow> int option" where
  "parse_exponent r =
     (case r of
        [] \<Rightarrow> Some 0
      | c # cs \<Rightarrow>
          if c = CHR ''e'' \<or> c = CHR ''E'' then
            (let (neg, ds) = split_sign cs in
             if list_all digitish ds \<and> digitpart_ok ds
             then Some (if neg then - int (nat_of_digits (digits_of ds))
                        else int (nat_of_digits (digits_of ds)))
             else None)
          else None)"

definition parse_decimal :: "bool \<Rightarrow> string \<Rightarrow> float_lit option" where
  "parse_decimal neg s =
     (let ip = takeWhile digitish s;
          r1 = dropWhile digitish s;
          has_dot = (r1 \<noteq> [] \<and> hd r1 = CHR ''.'');
          fp = (if has_dot then takeWhile digitish (tl r1) else []);
          r2 = (if has_dot then dropWhile digitish (tl r1) else r1)
      in if (ip = [] \<or> digitpart_ok ip) \<and> (fp = [] \<or> digitpart_ok fp)
            \<and> (ip \<noteq> [] \<or> fp \<noteq> [])
         then (case parse_exponent r2 of
                 None \<Rightarrow> None
               | Some e \<Rightarrow> Some (Dec_lit neg (nat_of_digits (digits_of (ip @ fp)))
                                   (e - int (length (digits_of fp)))))
         else None)"

definition float_syntax :: "string \<Rightarrow> float_lit option" where
  "float_syntax s =
     (let (neg, body) = split_sign (num_strip s);
          word = map ascii_lower_char body
      in if word = ''nan'' then Some (Nan_lit neg)
         else if word = ''inf'' \<or> word = ''infinity'' then Some (Inf_lit neg)
         else parse_decimal neg body)"

text \<open>
  The value of a literal is the C library's rounding to a double, which the script does
  not contain: \<open>strtod\<close> is a parameter, and \<open>'f\<close> the type of doubles.
\<close>

definition py_float :: "(float_lit \<Rightarrow> 'f) \<Rightarrow> string \<Rightarrow> 'f option" where
  "py_float strtod s = map_option strtod (float_syntax s)"

section \<open>Dicts that keep insertion order\<close>

text \<open>
  \<open>datasets\<close>, \<open>consolidated_stops\<close> and \<open>clean\<close> are iterated, so they are lists
  of key and value in insertion order. \<open>d[k] = v\<close> replaces the value of a key that is
  there, in its place, and appends a new key at the end.
\<close>

fun od_set :: "('k \<times> 'v) list \<Rightarrow> 'k \<Rightarrow> 'v \<Rightarrow> ('k \<times> 'v) list" where
  "od_set [] k v = [(k, v)]"
| "od_set ((k', v') # d) k v =
     (if k' = k then (k, v) # d else (k', v') # od_set d k v)"

section \<open>Archives and tables\<close>

datatype py_error =
    SystemExit int
  | Uncaught string

record path =
  path_parent :: string
  path_name :: string

definition rfind :: "char \<Rightarrow> string \<Rightarrow> nat option" where
  "rfind c s = (if c \<in> set s
     then Some (length s - 1 - length (takeWhile (\<lambda>x. x \<noteq> c) (rev s))) else None)"

definition stem :: "path \<Rightarrow> string" where
  \<comment> \<open>\<open>pathlib\<close>: the name without its last suffix.\<close>
  "stem p = (case rfind CHR ''.'' (path_name p) of
       None \<Rightarrow> path_name p
     | Some i \<Rightarrow> if 0 < i \<and> i < length (path_name p) - 1
                 then take i (path_name p) else path_name p)"

definition word_char :: "char \<Rightarrow> bool" where
  \<comment> \<open>The class \<open>[A-Za-z0-9_]\<close>.\<close>
  "word_char c =
     (c \<in> set ''ABCDEFGHIJKLMNOPQRSTUVWXYZabcdefghijklmnopqrstuvwxyz0123456789_'')"

function sub_non_word :: "string \<Rightarrow> string" where
  "sub_non_word [] = []"
| "sub_non_word (c # cs) =
     (if word_char c then c # sub_non_word cs
      else CHR ''_'' # sub_non_word (dropWhile (\<lambda>x. \<not> word_char x) cs))"
  by pat_completeness auto
termination
  by (relation "measure length") (auto simp: le_imp_less_Suc length_dropWhile_le)

definition agency_of_stem :: "string \<Rightarrow> string" where
  \<comment> \<open>\<open>re.sub(r'[^A-Za-z0-9_]+', '_', s).upper()\<close>: every maximal run of other
      characters becomes one underscore, and \<open>upper\<close> then meets only \<open>[A-Za-z0-9_]\<close>.\<close>
  "agency_of_stem s = map ascii_upper_char (sub_non_word s)"

definition load_gtfs_archives_from_local :: "path list \<Rightarrow> (string \<times> path) list" where
  \<comment> \<open>\<open>zips\<close> is \<open>sorted(folder.glob('*.zip'))\<close>, the listing of the folder.\<close>
  "load_gtfs_archives_from_local zips = map (\<lambda>z. (agency_of_stem (stem z), z)) zips"

text \<open>
  An open archive gives the names of its entries and the bytes of an entry by name. The
  file system maps a path to \<open>None\<close> when nothing exists there, to an error when
  \<open>zipfile.ZipFile\<close> raises, and to the archive otherwise. \<open>read_csv_from_bytes\<close> uses the
  \<open>csv\<close> library, which the script does not contain: it is a parameter \<open>rd\<close> that
  returns the rows or the exception the library raised.
\<close>

record 'b zipfile =
  namelist :: "string list"
  read_member :: "string \<Rightarrow> 'b"

type_synonym 'b filesystem = "path \<Rightarrow> (py_error + 'b zipfile) option"

type_synonym 'b csv_reader = "'b \<Rightarrow> py_error + row list"

definition candidates :: "'b zipfile \<Rightarrow> string \<Rightarrow> string list" where
  "candidates zf member_name =
     filter (\<lambda>n. endswith (py_lower n) (py_lower member_name)) (namelist zf)"

definition read_csv_from_zip ::
  "'b filesystem \<Rightarrow> 'b csv_reader \<Rightarrow> path \<Rightarrow> string \<Rightarrow> py_error + row list option" where
  "read_csv_from_zip fs rd zip_path member_name =
     (case fs zip_path of
        None \<Rightarrow> Inr None
      | Some (Inl e) \<Rightarrow> Inl e
      | Some (Inr zf) \<Rightarrow>
          (case candidates zf member_name of
             [] \<Rightarrow> Inr None
           | c # _ \<Rightarrow> (case rd (read_member zf c) of
                         Inl e \<Rightarrow> Inl e
                       | Inr rows \<Rightarrow> Inr (Some rows))))"

definition or_empty :: "row list option \<Rightarrow> row list" where
  \<comment> \<open>\<open>x or []\<close>\<close>
  "or_empty x = (case x of None \<Rightarrow> [] | Some rows \<Rightarrow> rows)"

record dataset =
  stops :: "row list"
  routes :: "row list"
  trips :: "row list"
  stop_times :: "row list"
  source_filename :: string

definition load_dataset ::
  "'b filesystem \<Rightarrow> 'b csv_reader \<Rightarrow> path \<Rightarrow> py_error + dataset" where
  \<comment> \<open>The body of the loop of \<open>extract_relevant_tables\<close>, for one archive.\<close>
  "load_dataset fs rd zpath =
     (case read_csv_from_zip fs rd zpath ''stops.txt'' of Inl e \<Rightarrow> Inl e | Inr st \<Rightarrow>
      case read_csv_from_zip fs rd zpath ''routes.txt'' of Inl e \<Rightarrow> Inl e | Inr ro \<Rightarrow>
      case read_csv_from_zip fs rd zpath ''trips.txt'' of Inl e \<Rightarrow> Inl e | Inr tr \<Rightarrow>
      case read_csv_from_zip fs rd zpath ''stop_times.txt'' of Inl e \<Rightarrow> Inl e | Inr sti \<Rightarrow>
      Inr \<lparr> stops = or_empty st, routes = or_empty ro, trips = or_empty tr,
            stop_times = or_empty sti, source_filename = path_name zpath \<rparr>)"

fun extract_loop ::
  "'b filesystem \<Rightarrow> 'b csv_reader \<Rightarrow> (string \<times> dataset) list \<Rightarrow> (string \<times> path) list
     \<Rightarrow> py_error + (string \<times> dataset) list" where
  "extract_loop fs rd datasets [] = Inr datasets"
| "extract_loop fs rd datasets ((agency_code, zpath) # archives) =
     (case load_dataset fs rd zpath of
        Inl e \<Rightarrow> Inl e
      | Inr ds \<Rightarrow> extract_loop fs rd (od_set datasets agency_code ds) archives)"

definition extract_relevant_tables ::
  "'b filesystem \<Rightarrow> 'b csv_reader \<Rightarrow> (string \<times> path) list
     \<Rightarrow> py_error + (string \<times> dataset) list" where
  "extract_relevant_tables fs rd archives = extract_loop fs rd [] archives"

section \<open>Identifier harmonizer\<close>

definition harmonize_row ::
  "bool \<Rightarrow> string \<Rightarrow> row \<Rightarrow> (string \<times> row) list \<times> (string \<rightharpoonup> string)
     \<Rightarrow> (string \<times> row) list \<times> (string \<rightharpoonup> string)" where
  \<comment> \<open>One round of the inner loop of \<open>harmonize_and_consolidate\<close>.\<close>
  "harmonize_row prefix ag row acc =
     (let stop_id = py_strip (get_or (row ''stop_id'') '''') in
      if stop_id = [] then acc
      else
        let new_id = (if prefix then ag @ ''_'' @ stop_id else stop_id) in
        if map_of (fst acc) new_id \<noteq> None then acc
        else (od_set (fst acc) new_id (row(''_orig_stop_id'' \<mapsto> stop_id, ''_agency'' \<mapsto> ag)),
              (snd acc)(new_id \<mapsto> ag)))"

definition harmonize_and_consolidate ::
  "(string \<times> dataset) list \<Rightarrow> bool \<Rightarrow> (string \<times> row) list \<times> (string \<rightharpoonup> string)" where
  "harmonize_and_consolidate datasets prefix =
     fold (\<lambda>(ag, ds) acc. fold (harmonize_row prefix ag) (stops ds) acc) datasets
       ([], Map.empty)"

section \<open>Stop filter\<close>

record 'f clean_stop =
  cs_stop_id :: string
  cs_orig_stop_id :: "string option"
  cs_agency :: "string option"
  cs_stop_name :: string
  cs_stop_code :: string
  cs_location_type :: int
  cs_parent_station :: string
  cs_stop_lat :: 'f
  cs_stop_lon :: 'f

definition location_type_of :: "nat \<Rightarrow> row \<Rightarrow> int" where
  \<comment> \<open>\<open>lt_i\<close>: the field stripped, \<open>'0'\<close> when empty, 0 when \<open>int\<close> raises.\<close>
  "location_type_of max_str_digits row =
     (let lt = py_strip (case row ''location_type'' of None \<Rightarrow> [] | Some v \<Rightarrow> v);
          lt' = (if lt = [] then ''0'' else lt)
      in case py_int max_str_digits lt' of None \<Rightarrow> 0 | Some n \<Rightarrow> n)"

definition lat_field :: "row \<Rightarrow> string" where
  "lat_field row = get_or (row ''stop_lat'') (get_or (row ''lat'') [])"

definition lon_field :: "row \<Rightarrow> string" where
  "lon_field row = get_or (row ''stop_lon'') (get_or (row ''lon'') [])"

definition clean_row ::
  "(float_lit \<Rightarrow> 'f) \<Rightarrow> nat \<Rightarrow> string \<times> row \<Rightarrow> (string \<times> 'f clean_stop) list
     \<Rightarrow> (string \<times> 'f clean_stop) list" where
  \<comment> \<open>One round of the loop of \<open>filter_and_clean_stops\<close>.\<close>
  "clean_row strtod max_str_digits item clean =
     (let sid = fst item; row = snd item;
          lt_i = location_type_of max_str_digits row;
          lat = lat_field row;
          lon = lon_field row
      in case py_float strtod lat of
           None \<Rightarrow> clean
         | Some lat_v \<Rightarrow>
            (case py_float strtod lon of
               None \<Rightarrow> clean
             | Some lon_v \<Rightarrow>
                 if lt_i \<noteq> 0 \<and> lt_i \<noteq> 1 then clean
                 else od_set clean sid
                   \<lparr> cs_stop_id = sid,
                     cs_orig_stop_id = row ''_orig_stop_id'',
                     cs_agency = row ''_agency'',
                     cs_stop_name = get_or (row ''stop_name'') (get_or (row ''stop_desc'') []),
                     cs_stop_code = get_or (row ''stop_code'') [],
                     cs_location_type = lt_i,
                     cs_parent_station = get_or (row ''parent_station'') [],
                     cs_stop_lat = lat_v,
                     cs_stop_lon = lon_v \<rparr>))"

definition filter_and_clean_stops ::
  "(float_lit \<Rightarrow> 'f) \<Rightarrow> nat \<Rightarrow> (string \<times> row) list \<Rightarrow> (string \<times> 'f clean_stop) list" where
  "filter_and_clean_stops strtod max_str_digits consolidated_stops =
     fold (clean_row strtod max_str_digits) consolidated_stops []"

section \<open>Route index builder\<close>

record route_meta =
  ri_route_id :: string
  route_short_name :: string
  route_long_name :: string
  ri_agency :: string

definition ag_prefix_of :: "bool \<Rightarrow> string \<Rightarrow> string" where
  \<comment> \<open>\<open>(ag + '_') if prefix else ''\<close>\<close>
  "ag_prefix_of prefix ag = (if prefix then ag @ ''_'' else [])"

definition route_row :: "string \<Rightarrow> string \<Rightarrow> row \<Rightarrow> (string \<rightharpoonup> route_meta)
     \<Rightarrow> (string \<rightharpoonup> route_meta)" where
  "route_row ag ag_prefix r route_info =
     (let rid = py_strip (get_or (r ''route_id'') []) in
      if rid = [] then route_info
      else route_info(ag_prefix @ rid \<mapsto>
        \<lparr> ri_route_id = ag_prefix @ rid,
          route_short_name = get_or (r ''route_short_name'') (get_or (r ''route_id'') []),
          route_long_name = get_or (r ''route_long_name'') [],
          ri_agency = ag \<rparr>))"

definition trip_row :: "string \<Rightarrow> row \<Rightarrow> (string \<rightharpoonup> string) \<Rightarrow> (string \<rightharpoonup> string)" where
  "trip_row ag_prefix t trip_to_route =
     (let tid = py_strip (get_or (t ''trip_id'') []) in
      if tid = [] then trip_to_route
      else
        let rid = py_strip (get_or (t ''route_id'') []) in
        if rid \<noteq> [] then trip_to_route(ag_prefix @ tid \<mapsto> ag_prefix @ rid)
        else trip_to_route)"

definition build_route_mappings ::
  "(string \<times> dataset) list \<Rightarrow> bool \<Rightarrow> (string \<rightharpoonup> route_meta) \<times> (string \<rightharpoonup> string)" where
  "build_route_mappings datasets prefix =
     fold (\<lambda>(ag, ds) acc.
             (fold (route_row ag (ag_prefix_of prefix ag)) (routes ds) (fst acc),
              fold (trip_row (ag_prefix_of prefix ag)) (trips ds) (snd acc)))
       datasets (Map.empty, Map.empty)"

section \<open>Stop-route join engine\<close>

text \<open>
  \<open>stop_routes\<close> is a \<open>defaultdict(set)\<close>. The order in which \<open>list(v)\<close> walks a set of
  strings depends on the hash seed of the run: \<open>set_order\<close> is that order, a parameter.
\<close>

definition stop_time_row ::
  "bool \<Rightarrow> string \<Rightarrow> (string \<rightharpoonup> string) \<Rightarrow> row \<Rightarrow> (string \<rightharpoonup> string set)
     \<Rightarrow> (string \<rightharpoonup> string set)" where
  "stop_time_row prefix ag_prefix trip_to_route st stop_routes =
     (let sid = py_strip (get_or (st ''stop_id'') []) in
      if sid = [] then stop_routes
      else
        let sid_p = (if prefix then ag_prefix @ sid else sid);
            tid = py_strip (get_or (st ''trip_id'') [])
        in if tid = [] then stop_routes
           else
             let tid_p = (if prefix then ag_prefix @ tid else tid) in
             case trip_to_route tid_p of
               None \<Rightarrow> stop_routes
             | Some rid_p \<Rightarrow>
                 if rid_p = [] then stop_routes
                 else stop_routes(sid_p \<mapsto>
                   insert rid_p (case stop_routes sid_p of None \<Rightarrow> {} | Some v \<Rightarrow> v)))"

definition collect_stop_routes ::
  "(string \<times> dataset) list \<Rightarrow> (string \<rightharpoonup> string) \<Rightarrow> bool \<Rightarrow> (string \<rightharpoonup> string set)" where
  \<comment> \<open>The loops of \<open>build_stop_to_routes\<close>.\<close>
  "collect_stop_routes datasets trip_to_route prefix =
     fold (\<lambda>(ag, ds) acc.
             fold (stop_time_row prefix (ag_prefix_of prefix ag) trip_to_route) (stop_times ds) acc)
       datasets Map.empty"

definition build_stop_to_routes ::
  "(string set \<Rightarrow> string list) \<Rightarrow> (string \<times> dataset) list \<Rightarrow> (string \<rightharpoonup> string) \<Rightarrow> bool
     \<Rightarrow> (string \<rightharpoonup> string list)" where
  "build_stop_to_routes set_order datasets trip_to_route prefix =
     (\<lambda>k. map_option (\<lambda>v. sort (set_order v))
        (collect_stop_routes datasets trip_to_route prefix k))"

section \<open>Feature assembler\<close>

record 'f geometry =
  g_type :: string
  coordinates :: "'f list"

record properties =
  p_stop_id :: string
  p_orig_stop_id :: "string option"
  p_agency :: "string option"
  p_name :: string
  p_code :: string
  p_location_type :: int
  p_parent_station :: string
  routes_serving :: "string list"

record 'f feature =
  f_type :: string
  f_id :: string
  geometry :: "'f geometry"
  properties :: properties

record metadata =
  date_generated :: string
  gtfs_source :: string
  license :: string

record 'f geojson =
  gj_type :: string
  gj_name :: string
  metadata :: metadata
  features :: "'f feature list"

definition display_route :: "(string \<rightharpoonup> route_meta) \<Rightarrow> string \<Rightarrow> string" where
  \<comment> \<open>The short name when \<open>route_info\<close> has a non-empty one, else the route id.\<close>
  "display_route route_info rid =
     (case route_info rid of
        None \<Rightarrow> rid
      | Some meta \<Rightarrow> if route_short_name meta \<noteq> [] then route_short_name meta else rid)"

definition make_feature ::
  "(string \<rightharpoonup> string list) \<Rightarrow> (string \<rightharpoonup> route_meta) \<Rightarrow> string \<times> 'f clean_stop
     \<Rightarrow> 'f feature" where
  \<comment> \<open>One round of the loop of \<open>create_geojson\<close>.\<close>
  "make_feature stop_routes route_info item =
     (let sid = fst item; s = snd item;
          coords = [cs_stop_lon s, cs_stop_lat s];
          rlist = (case stop_routes sid of None \<Rightarrow> [] | Some l \<Rightarrow> l)
      in \<lparr> f_type = ''Feature'',
           f_id = sid,
           geometry = \<lparr> g_type = ''Point'', coordinates = coords \<rparr>,
           properties =
             \<lparr> p_stop_id = cs_stop_id s,
               p_orig_stop_id = cs_orig_stop_id s,
               p_agency = cs_agency s,
               p_name = cs_stop_name s,
               p_code = cs_stop_code s,
               p_location_type = cs_location_type s,
               p_parent_station = cs_parent_station s,
               routes_serving = map (display_route route_info) rlist \<rparr> \<rparr>)"

definition create_geojson ::
  "string \<Rightarrow> (string \<times> 'f clean_stop) list \<Rightarrow> (string \<rightharpoonup> string list)
     \<Rightarrow> (string \<rightharpoonup> route_meta) \<Rightarrow> 'f geojson" where
  \<comment> \<open>\<open>now\<close> is \<open>datetime.utcnow()\<close> in the format of the script.\<close>
  "create_geojson now clean_stops stop_routes route_info =
     \<lparr> gj_type = ''FeatureCollection'',
       gj_name = ''Cyprus_Public_Transport_Stops'',
       metadata = \<lparr> date_generated = now,
                    gtfs_source = ''Cyprus National Access Point / MotionBusCard'',
                    license = ''CC-BY-4.0'' \<rparr>,
       features = map (make_feature stop_routes route_info) clean_stops \<rparr>"

section \<open>The run\<close>

text \<open>
  \<open>pipeline\<close> is \<open>main\<close> from \<open>extract_relevant_tables\<close> to \<open>create_geojson\<close>, on the
  archives found; \<open>stages\<close> is its part after the extraction, on the datasets.
  \<open>main\<close> adds the exits before it: \<open>local\<close> is \<open>None\<close> without
  \<open>--local\<close>, \<open>Some None\<close> when the folder does not exist, and the sorted listing of
  its zip files otherwise; \<open>downloaded\<close> is what \<open>load_gtfs_archives_from_urls\<close> returned
  (nothing without \<open>--urls\<close>). What the run computes is the document given to \<open>json.dump\<close>.
\<close>

record 'f runtime =
  rt_strtod :: "float_lit \<Rightarrow> 'f"
  rt_int_max_str_digits :: nat
  rt_set_order :: "string set \<Rightarrow> string list"
  rt_utcnow :: string

definition stages ::
  "'f runtime \<Rightarrow> bool \<Rightarrow> bool \<Rightarrow> (string \<times> dataset) list \<Rightarrow> 'f geojson" where
  \<comment> \<open>\<open>main\<close> from \<open>harmonize_and_consolidate\<close> to \<open>create_geojson\<close>.\<close>
  "stages rt prefix skip_enrich datasets =
     (let consolidated = fst (harmonize_and_consolidate datasets prefix);
          clean_stops = filter_and_clean_stops (rt_strtod rt) (rt_int_max_str_digits rt)
             consolidated;
          route_info = fst (build_route_mappings datasets prefix);
          trip_to_route = snd (build_route_mappings datasets prefix);
          stop_routes = (if \<not> skip_enrich
             then build_stop_to_routes (rt_set_order rt) datasets trip_to_route prefix
             else Map.empty)
      in create_geojson (rt_utcnow rt) clean_stops stop_routes route_info)"

definition pipeline ::
  "'f runtime \<Rightarrow> 'b filesystem \<Rightarrow> 'b csv_reader \<Rightarrow> bool \<Rightarrow> bool \<Rightarrow> (string \<times> path) list
     \<Rightarrow> py_error + 'f geojson" where
  "pipeline rt fs rd prefix skip_enrich archives =
     (case extract_relevant_tables fs rd archives of
        Inl e \<Rightarrow> Inl e
      | Inr datasets \<Rightarrow> Inr (stages rt prefix skip_enrich datasets))"

definition main ::
  "'f runtime \<Rightarrow> 'b filesystem \<Rightarrow> 'b csv_reader \<Rightarrow> bool \<Rightarrow> bool \<Rightarrow> path list option option
     \<Rightarrow> (string \<times> path) list \<Rightarrow> py_error + 'f geojson" where
  "main rt fs rd no_prefix skip_enrich local downloaded =
     (case local of
        Some None \<Rightarrow> Inl (SystemExit 1)
      | _ \<Rightarrow>
        let archives = (case local of Some (Some zips) \<Rightarrow> load_gtfs_archives_from_local zips
                                   | _ \<Rightarrow> []) @ downloaded
        in if archives = [] then Inl (SystemExit 1)
           else pipeline rt fs rd (\<not> no_prefix) skip_enrich archives)"

section \<open>Notions used to state the properties\<close>

definition stop_id_of :: "row \<Rightarrow> string" where
  \<comment> \<open>\<open>(row.get('stop_id') or '').strip()\<close>\<close>
  "stop_id_of row = py_strip (get_or (row ''stop_id'') [])"

definition harmonized_id :: "bool \<Rightarrow> string \<Rightarrow> string \<Rightarrow> string" where
  \<comment> \<open>\<open>new_id\<close> of the harmonizer.\<close>
  "harmonized_id prefix ag stop_id = (if prefix then ag @ ''_'' @ stop_id else stop_id)"

definition consolidated_row :: "string \<Rightarrow> row \<Rightarrow> row" where
  \<comment> \<open>The row as the harmonizer stores it.\<close>
  "consolidated_row ag row = row(''_orig_stop_id'' \<mapsto> stop_id_of row, ''_agency'' \<mapsto> ag)"

definition harmonized_rows :: "bool \<Rightarrow> (string \<times> dataset) list \<Rightarrow> (string \<times> row) list" where
  \<comment> \<open>Every stop row with a stop id, in the order the harmonizer meets them, under its
      harmonized id.\<close>
  "harmonized_rows prefix datasets =
     concat (map (\<lambda>(ag, ds).
        map (\<lambda>row. (harmonized_id prefix ag (stop_id_of row), consolidated_row ag row))
          (filter (\<lambda>row. stop_id_of row \<noteq> []) (stops ds))) datasets)"

definition stop_field :: "(string \<times> row) list \<Rightarrow> string \<Rightarrow> string \<Rightarrow> string option" where
  \<comment> \<open>\<open>d[sid].get(k)\<close>, and \<open>None\<close> when \<open>sid\<close> is no key of \<open>d\<close>.\<close>
  "stop_field d sid k = (case map_of d sid of None \<Rightarrow> None | Some row \<Rightarrow> row k)"

definition kept :: "nat \<Rightarrow> row \<Rightarrow> bool" where
  \<comment> \<open>Both checks of the stop filter: \<open>float\<close> accepts the two coordinate fields, and
      \<open>lt_i\<close> is 0 or 1.\<close>
  "kept max_str_digits row =
     (float_syntax (lat_field row) \<noteq> None \<and> float_syntax (lon_field row) \<noteq> None
      \<and> (location_type_of max_str_digits row = 0 \<or> location_type_of max_str_digits row = 1))"

definition clean_of :: "(float_lit \<Rightarrow> 'f) \<Rightarrow> nat \<Rightarrow> string \<Rightarrow> row \<Rightarrow> 'f clean_stop" where
  \<comment> \<open>The record the stop filter stores for a row it keeps.\<close>
  "clean_of strtod max_str_digits sid row =
     \<lparr> cs_stop_id = sid,
       cs_orig_stop_id = row ''_orig_stop_id'',
       cs_agency = row ''_agency'',
       cs_stop_name = get_or (row ''stop_name'') (get_or (row ''stop_desc'') []),
       cs_stop_code = get_or (row ''stop_code'') [],
       cs_location_type = location_type_of max_str_digits row,
       cs_parent_station = get_or (row ''parent_station'') [],
       cs_stop_lat = strtod (the (float_syntax (lat_field row))),
       cs_stop_lon = strtod (the (float_syntax (lon_field row))) \<rparr>"

definition trip_id_of :: "row \<Rightarrow> string" where
  \<comment> \<open>\<open>(t.get('trip_id') or '').strip()\<close>\<close>
  "trip_id_of t = py_strip (get_or (t ''trip_id'') [])"

definition route_id_of :: "row \<Rightarrow> string" where
  \<comment> \<open>\<open>(r.get('route_id') or '').strip()\<close>\<close>
  "route_id_of r = py_strip (get_or (r ''route_id'') [])"

definition short_name_of :: "row \<Rightarrow> string" where
  \<comment> \<open>What the route index stores as \<open>route_short_name\<close> of a routes row.\<close>
  "short_name_of r = get_or (r ''route_short_name'') (get_or (r ''route_id'') [])"

definition trip_entries :: "bool \<Rightarrow> (string \<times> dataset) list \<Rightarrow> (string \<times> string) list" where
  \<comment> \<open>Harmonized trip id and harmonized route id of every trips row that has both, in
      the order the route index builder meets them.\<close>
  "trip_entries prefix datasets =
     concat (map (\<lambda>(ag, ds).
        map (\<lambda>t. (ag_prefix_of prefix ag @ trip_id_of t, ag_prefix_of prefix ag @ route_id_of t))
          (filter (\<lambda>t. trip_id_of t \<noteq> [] \<and> route_id_of t \<noteq> []) (trips ds))) datasets)"

definition route_entries :: "bool \<Rightarrow> (string \<times> dataset) list \<Rightarrow> (string \<times> route_meta) list" where
  \<comment> \<open>Harmonized route id and metadata of every routes row with a route id, in order.\<close>
  "route_entries prefix datasets =
     concat (map (\<lambda>(ag, ds).
        map (\<lambda>r. (ag_prefix_of prefix ag @ route_id_of r,
                  \<lparr> ri_route_id = ag_prefix_of prefix ag @ route_id_of r,
                    route_short_name = short_name_of r,
                    route_long_name = get_or (r ''route_long_name'') [],
                    ri_agency = ag \<rparr>))
          (filter (\<lambda>r. route_id_of r \<noteq> []) (routes ds))) datasets)"

definition st_triple ::
  "bool \<Rightarrow> string \<Rightarrow> (string \<rightharpoonup> string) \<Rightarrow> row \<Rightarrow> (string \<times> string \<times> string) option" where
  \<comment> \<open>What a stop_times row adds to the join: harmonized stop id, harmonized trip id and
      the route the trip resolves to; nothing when an id is empty or the trip does not
      resolve.\<close>
  "st_triple prefix ag trip_to_route st =
     (if stop_id_of st = [] \<or> trip_id_of st = [] then None
      else case trip_to_route (ag_prefix_of prefix ag @ trip_id_of st) of
             None \<Rightarrow> None
           | Some rid_p \<Rightarrow> if rid_p = [] then None
               else Some (ag_prefix_of prefix ag @ stop_id_of st,
                          ag_prefix_of prefix ag @ trip_id_of st, rid_p))"

definition join_triples ::
  "bool \<Rightarrow> (string \<times> dataset) list \<Rightarrow> (string \<rightharpoonup> string) \<Rightarrow> (string \<times> string \<times> string) list" where
  "join_triples prefix datasets trip_to_route =
     concat (map (\<lambda>(ag, ds). List.map_filter (st_triple prefix ag trip_to_route) (stop_times ds))
       datasets)"

definition routes_at :: "(string \<rightharpoonup> string set) \<Rightarrow> string \<Rightarrow> string set" where
  \<comment> \<open>The set of a \<open>defaultdict(set)\<close> at a key, empty when the key is absent.\<close>
  "routes_at stop_routes k = (case stop_routes k of None \<Rightarrow> {} | Some v \<Rightarrow> v)"

definition with_triples ::
  "(string \<rightharpoonup> string set) \<Rightarrow> (string \<times> string \<times> string) list \<Rightarrow> (string \<rightharpoonup> string set)" where
  \<comment> \<open>A \<open>defaultdict(set)\<close> after the routes of a list of join triples were added.\<close>
  "with_triples m ts =
     (\<lambda>k. if k \<in> fst ` set ts then Some (routes_at m k \<union> {r. \<exists>t. (k, t, r) \<in> set ts})
          else m k)"

section \<open>Example inputs\<close>

text \<open>
  An archive whose entries are already tables: its bytes are rows, and the reader
  \<open>Inr\<close> returns them.
\<close>

definition zip_of_tables :: "(string \<times> row list) list \<Rightarrow> (row list) zipfile" where
  "zip_of_tables ts = \<lparr> namelist = map fst ts,
      read_member = (\<lambda>n. case map_of ts n of None \<Rightarrow> [] | Some rows \<Rightarrow> rows) \<rparr>"

text \<open>Two files of one folder whose names give the same agency code.\<close>

definition twin_a :: path where
  "twin_a = \<lparr> path_parent = ''gtfs'', path_name = ''a b.zip'' \<rparr>"

definition twin_b :: path where
  "twin_b = \<lparr> path_parent = ''gtfs'', path_name = ''a-b.zip'' \<rparr>"

definition twin_fs :: "(row list) filesystem" where
  "twin_fs p =
     (if p = twin_a
      then Some (Inr (zip_of_tables [(''stops.txt'', [[''stop_id'' \<mapsto> ''1'']])]))
      else if p = twin_b
      then Some (Inr (zip_of_tables [(''Feed/STOPS.TXT'', [[''stop_id'' \<mapsto> ''2'']])]))
      else None)"

definition twin_b_dataset :: dataset where
  "twin_b_dataset = \<lparr> stops = [[''stop_id'' \<mapsto> ''2'']], routes = [], trips = [],
      stop_times = [], source_filename = ''a-b.zip'' \<rparr>"

text \<open>Stop tables only, for the harmonizer.\<close>

definition stop_row :: "string \<Rightarrow> string \<Rightarrow> string \<Rightarrow> row" where
  "stop_row sid lat lon = [''stop_id'' \<mapsto> sid, ''stop_lat'' \<mapsto> lat, ''stop_lon'' \<mapsto> lon]"

definition only_stops :: "row list \<Rightarrow> dataset" where
  "only_stops rows = \<lparr> stops = rows, routes = [], trips = [], stop_times = [],
      source_filename = ''feed.zip'' \<rparr>"

definition concat_clash :: "(string \<times> dataset) list" where
  \<comment> \<open>Agency \<open>A\<close> with stop \<open>B_C\<close>, agency \<open>A_B\<close> with stop \<open>C\<close>.\<close>
  "concat_clash =
     [(''A'', only_stops [stop_row ''B_C'' ''35.1'' ''33.3'']),
      (''A_B'', only_stops [stop_row ''C'' ''34.7'' ''33.0''])]"

definition shared_clash :: "(string \<times> dataset) list" where
  \<comment> \<open>Agencies \<open>A\<close> and \<open>A_B\<close> both have a stop \<open>C\<close>; \<open>A\<close> also has a stop \<open>B_C\<close>, before it.\<close>
  "shared_clash =
     [(''A'', only_stops [stop_row ''B_C'' ''35.1'' ''33.3'', stop_row ''C'' ''35.2'' ''33.4'']),
      (''A_B'', only_stops [stop_row ''C'' ''34.7'' ''33.0''])]"

text \<open>Consolidated rows for the stop filter.\<close>

definition nan_stop :: "(string \<times> row) list" where
  "nan_stop = [(''A_1'', consolidated_row ''A'' (stop_row ''1'' ''nan'' ''33.0''))]"

definition filter_input :: "(string \<times> row) list" where
  "filter_input =
     [(''A_1'', stop_row ''1'' ''35.1'' ''33.3''),
      (''A_2'', stop_row ''2'' ''N/A'' ''33.0''),
      (''A_3'', (stop_row ''3'' ''35.2'' ''33.4'')(''location_type'' \<mapsto> ''2'')),
      (''A_4'', (stop_row ''4'' ''35.2'' ''33.4'')(''location_type'' \<mapsto> ''x'')),
      (''A_5'', [''stop_id'' \<mapsto> ''5'', ''lat'' \<mapsto> ''35.3'', ''lon'' \<mapsto> ''33.5'',
                 ''location_type'' \<mapsto> ''1''])]"

text \<open>One archive with the four tables: stop \<open>S\<close> served by trip \<open>T\<close> of route \<open>R\<close>
  (short name \<open>12\<close>) and by trip \<open>U\<close> of route \<open>Q\<close> (short name \<open>7\<close>).\<close>

definition route_ex :: "string \<Rightarrow> string \<Rightarrow> row" where
  "route_ex rid short = [''route_id'' \<mapsto> rid, ''route_short_name'' \<mapsto> short]"

definition trip_ex :: "string \<Rightarrow> string \<Rightarrow> row" where
  "trip_ex tid rid = [''trip_id'' \<mapsto> tid, ''route_id'' \<mapsto> rid]"

definition stop_time_ex :: "string \<Rightarrow> string \<Rightarrow> row" where
  "stop_time_ex sid tid = [''stop_id'' \<mapsto> sid, ''trip_id'' \<mapsto> tid]"

definition cy_dataset :: dataset where
  "cy_dataset = \<lparr> stops = [stop_row ''S'' ''35.1'' ''33.3''],
      routes = [route_ex ''R'' ''12'', route_ex ''Q'' ''7''],
      trips = [trip_ex ''T'' ''R'', trip_ex ''U'' ''Q''],
      stop_times = [stop_time_ex ''S'' ''T'', stop_time_ex ''S'' ''U''],
      source_filename = ''cy.zip'' \<rparr>"

definition cy_path :: path where
  "cy_path = \<lparr> path_parent = ''gtfs'', path_name = ''cy.zip'' \<rparr>"

definition cy_fs :: "(row list) filesystem" where
  "cy_fs p = (if p = cy_path
      then Some (Inr (zip_of_tables
        [(''stops.txt'', stops cy_dataset), (''routes.txt'', routes cy_dataset),
         (''trips.txt'', trips cy_dataset), (''stop_times.txt'', stop_times cy_dataset)]))
      else None)"

definition interp_a :: "float_lit runtime" where
  "interp_a = \<lparr> rt_strtod = id, rt_int_max_str_digits = 4300,
      rt_set_order = sorted_list_of_set, rt_utcnow = ''2024-01-01T00:00:00Z'' \<rparr>"

definition interp_b :: "float_lit runtime" where
  "interp_b = \<lparr> rt_strtod = id, rt_int_max_str_digits = 4300,
      rt_set_order = (\<lambda>V. rev (sorted_list_of_set V)), rt_utcnow = ''2024-01-02T00:00:00Z'' \<rparr>"







text \<open>One archive with the stop \<open>S\<close> and given routes, trips and stop_times tables.\<close>

definition one_stop :: "row list \<Rightarrow> row list \<Rightarrow> row list \<Rightarrow> dataset" where
  "one_stop ro tr sti = \<lparr> stops = [stop_row ''S'' ''35.1'' ''33.3''],
      routes = ro, trips = tr, stop_times = sti, source_filename = ''cy.zip'' \<rparr>"

section \<open>Facts about ordered dicts\<close>

lemma map_of_od_set: "map_of (od_set d k v) = (map_of d)(k \<mapsto> v)"
  by (induction d) (auto simp: fun_eq_iff)

lemma keys_od_set: "fst ` set (od_set d k v) = insert k (fst ` set d)"
proof -
  have "fst ` set (od_set d k v) = dom (map_of (od_set d k v))"
    by (simp add: dom_map_of_conv_image_fst)
  also have "\<dots> = insert k (fst ` set d)"
    by (simp add: map_of_od_set dom_map_of_conv_image_fst)
  finally show ?thesis .
qed

lemma distinct_od_set: "distinct (map fst d) \<Longrightarrow> distinct (map fst (od_set d k v))"
proof (induction d)
  case Nil
  then show ?case by simp
next
  case (Cons p d)
  obtain k' v' where p: "p = (k', v')" by (cases p)
  show ?case
  proof (cases "k' = k")
    case True
    with Cons.prems p show ?thesis by simp
  next
    case False
    have "k' \<notin> fst ` set (od_set d k v)"
      using Cons.prems p False by (simp add: keys_od_set)
    with Cons p False show ?thesis by simp
  qed
qed

lemma od_set_new: "map_of d k = None \<Longrightarrow> od_set d k v = d @ [(k, v)]"
  by (induction d) (auto split: if_splits)

lemma filter_key_distinct:
  "distinct (map fst d) \<Longrightarrow> map_of d k = Some v \<Longrightarrow> filter (\<lambda>e. fst e = k) d = [(k, v)]"
proof (induction d)
  case Nil
  then show ?case by simp
next
  case (Cons p d)
  show ?case
  proof (cases "fst p = k")
    case True
    have "\<forall>e \<in> set d. fst e \<noteq> fst p"
      using Cons.prems(1) by (metis distinct.simps(2) image_eqI list.simps(9) set_map)
    with True have "filter (\<lambda>e. fst e = k) d = []"
      by (simp add: filter_empty_conv)
    with True Cons.prems(2) show ?thesis by (cases p) auto
  next
    case False
    with Cons show ?thesis by (cases p) auto
  qed
qed

section \<open>Archive extractor\<close>

lemma extract_loop_distinct:
  "extract_loop fs rd acc archives = Inr datasets \<Longrightarrow> distinct (map fst acc)
     \<Longrightarrow> distinct (map fst datasets)"
proof (induction archives arbitrary: acc)
  case Nil
  then show ?case by simp
next
  case (Cons a archives)
  obtain ag z where a: "a = (ag, z)" by (cases a)
  from Cons.prems a obtain ds where ds: "load_dataset fs rd z = Inr ds"
    and rest: "extract_loop fs rd (od_set acc ag ds) archives = Inr datasets"
    by (auto split: sum.splits)
  show ?case by (rule Cons.IH [OF rest]) (simp add: distinct_od_set Cons.prems)
qed

lemma extract_loop_lookup_other:
  "extract_loop fs rd acc archives = Inr datasets \<Longrightarrow> ag \<notin> fst ` set archives
     \<Longrightarrow> map_of datasets ag = map_of acc ag"
proof (induction archives arbitrary: acc)
  case Nil
  then show ?case by simp
next
  case (Cons a archives)
  obtain ag' z where a: "a = (ag', z)" by (cases a)
  from Cons.prems a obtain ds where ds: "load_dataset fs rd z = Inr ds"
    and rest: "extract_loop fs rd (od_set acc ag' ds) archives = Inr datasets"
    by (auto split: sum.splits)
  have "ag' \<noteq> ag" "ag \<notin> fst ` set archives" using Cons.prems a by auto
  with Cons.IH [OF rest] show ?case by (simp add: map_of_od_set)
qed

lemma extract_loop_append:
  "extract_loop fs rd acc (xs @ ys) =
     (case extract_loop fs rd acc xs of Inl e \<Rightarrow> Inl e | Inr d \<Rightarrow> extract_loop fs rd d ys)"
  by (induction xs arbitrary: acc) (auto split: sum.splits)

lemma extract_loop_last:
  assumes "extract_loop fs rd acc (xs @ (ag, z) # ys) = Inr datasets"
    and "ag \<notin> fst ` set ys"
  shows "\<exists>ds. load_dataset fs rd z = Inr ds \<and> map_of datasets ag = Some ds"
proof -
  from assms(1) obtain d1 where d1: "extract_loop fs rd acc xs = Inr d1"
    and r1: "extract_loop fs rd d1 ((ag, z) # ys) = Inr datasets"
    by (auto simp: extract_loop_append split: sum.splits)
  from r1 obtain ds where ds: "load_dataset fs rd z = Inr ds"
    and r2: "extract_loop fs rd (od_set d1 ag ds) ys = Inr datasets"
    by (auto split: sum.splits)
  from extract_loop_lookup_other [OF r2 assms(2)]
  have "map_of datasets ag = Some ds" by (simp add: map_of_od_set)
  with ds show ?thesis by blast
qed

lemma py_lower_stops: "py_lower ''stops.txt'' = ''stops.txt''"
  by (simp add: py_lower_def lower_char_def ascii_lower_char_def latin1_capitals_def)

lemma py_lower_routes: "py_lower ''routes.txt'' = ''routes.txt''"
  by (simp add: py_lower_def lower_char_def ascii_lower_char_def latin1_capitals_def)

lemma py_lower_trips: "py_lower ''trips.txt'' = ''trips.txt''"
  by (simp add: py_lower_def lower_char_def ascii_lower_char_def latin1_capitals_def)

lemma py_lower_stop_times: "py_lower ''stop_times.txt'' = ''stop_times.txt''"
  by (simp add: py_lower_def lower_char_def ascii_lower_char_def latin1_capitals_def)

lemmas py_lower_members = py_lower_stops py_lower_routes py_lower_trips py_lower_stop_times

lemma stem_twin: "stem twin_a = ''a b''" "stem twin_b = ''a-b''"
  by (simp_all add: stem_def twin_a_def twin_b_def rfind_def)

lemma agency_twin: "agency_of_stem ''a b'' = ''A_B''" "agency_of_stem ''a-b'' = ''A_B''"
  by (simp_all add: agency_of_stem_def word_char_def ascii_upper_char_def)

lemma twin_archives:
  "load_gtfs_archives_from_local [twin_a, twin_b] = [(''A_B'', twin_a), (''A_B'', twin_b)]"
  by (simp add: load_gtfs_archives_from_local_def stem_twin agency_twin)

lemma twin_load_a: "\<exists>ds. load_dataset twin_fs Inr twin_a = Inr ds"
  by (simp add: load_dataset_def read_csv_from_zip_def twin_fs_def zip_of_tables_def
      candidates_def py_lower_members endswith_def)

lemma twin_upper_name: "py_lower ''Feed/STOPS.TXT'' = ''feed/stops.txt''"
  by (simp add: py_lower_def lower_char_def ascii_lower_char_def latin1_capitals_def)

lemma twin_load_b: "load_dataset twin_fs Inr twin_b = Inr twin_b_dataset"
  by (simp add: load_dataset_def read_csv_from_zip_def twin_fs_def twin_a_def twin_b_def
      zip_of_tables_def candidates_def py_lower_members twin_upper_name endswith_def
      or_empty_def twin_b_dataset_def)

lemma twin_extract:
  "extract_relevant_tables twin_fs Inr [(''A_B'', twin_a), (''A_B'', twin_b)] =
     Inr [(''A_B'', twin_b_dataset)]"
proof -
  obtain ds where a: "load_dataset twin_fs Inr twin_a = Inr ds"
    using twin_load_a by blast
  show ?thesis
    by (simp add: extract_relevant_tables_def a twin_load_b)
qed

text \<open>
  C10. The datasets are a dict keyed by the agency code. When two archives of the input
  have the same code, after the run of the extractor the dict holds one dataset under
  that code, and it is the one read from the last such archive: the tables of the
  earlier archive are replaced and reach no later stage.
\<close>

theorem same_agency_code_last_archive_wins:
  assumes "extract_relevant_tables fs rd (xs @ (ag, z1) # ys @ (ag, z2) # zs) = Inr datasets"
    and "ag \<notin> fst ` set zs"
  shows "\<exists>ds. load_dataset fs rd z2 = Inr ds \<and> filter (\<lambda>e. fst e = ag) datasets = [(ag, ds)]"
proof -
  have e: "extract_loop fs rd [] ((xs @ (ag, z1) # ys) @ (ag, z2) # zs) = Inr datasets"
    using assms(1) by (simp add: extract_relevant_tables_def)
  from extract_loop_last [OF e assms(2)] obtain ds
    where ds: "load_dataset fs rd z2 = Inr ds" and m: "map_of datasets ag = Some ds" by blast
  have "distinct (map fst datasets)"
    using extract_loop_distinct [OF e] by simp
  from filter_key_distinct [OF this m] ds show ?thesis by blast
qed

theorem same_agency_code_last_archive_wins_witness:
  "extract_relevant_tables twin_fs Inr (load_gtfs_archives_from_local [twin_a, twin_b]) =
     Inr [(''A_B'', twin_b_dataset)]
   \<and> ''A_B'' \<notin> fst ` set ([] :: (string \<times> path) list)
   \<and> (\<exists>ds. load_dataset twin_fs Inr twin_b = Inr ds
        \<and> filter (\<lambda>e. fst e = ''A_B'') [(''A_B'', twin_b_dataset)] = [(''A_B'', ds)])"
  using same_agency_code_last_archive_wins
    [of twin_fs Inr "[]" "''A_B''" twin_a "[]" twin_b "[]" "[(''A_B'', twin_b_dataset)]"]
  by (simp add: twin_archives twin_extract)

section \<open>Identifier harmonizer: what the consolidated dict holds\<close>

lemma map_of_append_known:
  "map_of d k \<noteq> None \<Longrightarrow> map_of (d @ [(k, v)]) = map_of d"
  by (auto simp: fun_eq_iff map_add_def split: option.splits)

lemma harmonize_row_map_of:
  "map_of (fst (harmonize_row prefix ag row acc)) =
     map_of (fst acc @ (if stop_id_of row = [] then []
        else [(harmonized_id prefix ag (stop_id_of row), consolidated_row ag row)]))"
proof (cases "stop_id_of row = []")
  case True
  then show ?thesis by (simp add: harmonize_row_def stop_id_of_def)
next
  case False
  show ?thesis
  proof (cases "map_of (fst acc) (harmonized_id prefix ag (stop_id_of row)) = None")
    case True
    with False show ?thesis
      by (simp add: harmonize_row_def stop_id_of_def harmonized_id_def consolidated_row_def
          Let_def od_set_new)
  next
    case known: False
    from map_of_append_known [OF known] False known show ?thesis
      by (simp add: harmonize_row_def stop_id_of_def harmonized_id_def consolidated_row_def
          Let_def)
  qed
qed

lemma harmonize_row_distinct:
  "distinct (map fst (fst acc)) \<Longrightarrow> distinct (map fst (fst (harmonize_row prefix ag row acc)))"
  by (simp add: harmonize_row_def Let_def distinct_od_set)

lemma harmonize_rows_map_of:
  "map_of (fst (fold (harmonize_row prefix ag) rows acc)) =
     map_of (fst acc @
       map (\<lambda>row. (harmonized_id prefix ag (stop_id_of row), consolidated_row ag row))
         (filter (\<lambda>row. stop_id_of row \<noteq> []) rows))"
proof (induction rows arbitrary: acc)
  case Nil
  then show ?case by simp
next
  case (Cons row rows)
  have "map_of (fst (fold (harmonize_row prefix ag) (row # rows) acc)) =
      map_of (fst (harmonize_row prefix ag row acc) @
       map (\<lambda>row. (harmonized_id prefix ag (stop_id_of row), consolidated_row ag row))
         (filter (\<lambda>row. stop_id_of row \<noteq> []) rows))"
    using Cons.IH [of "harmonize_row prefix ag row acc"] by simp
  also have "\<dots> = map_of (fst acc @
       map (\<lambda>row. (harmonized_id prefix ag (stop_id_of row), consolidated_row ag row))
         (filter (\<lambda>row. stop_id_of row \<noteq> []) (row # rows)))"
    using harmonize_row_map_of [of prefix ag row acc] by simp
  finally show ?case .
qed

lemma harmonize_rows_distinct:
  "distinct (map fst (fst acc))
     \<Longrightarrow> distinct (map fst (fst (fold (harmonize_row prefix ag) rows acc)))"
  by (induction rows arbitrary: acc) (simp_all add: harmonize_row_distinct)

lemma harmonize_datasets_map_of:
  "map_of (fst (fold (\<lambda>(ag, ds) acc. fold (harmonize_row prefix ag) (stops ds) acc) datasets acc))
     = map_of (fst acc @ harmonized_rows prefix datasets)"
proof (induction datasets arbitrary: acc)
  case Nil
  then show ?case by (simp add: harmonized_rows_def)
next
  case (Cons d datasets)
  obtain ag ds where d: "d = (ag, ds)" by (cases d)
  have "map_of (fst (fold (\<lambda>(ag, ds) acc. fold (harmonize_row prefix ag) (stops ds) acc)
            (d # datasets) acc)) =
        map_of (fst (fold (harmonize_row prefix ag) (stops ds) acc)
            @ harmonized_rows prefix datasets)"
    using Cons.IH [of "fold (harmonize_row prefix ag) (stops ds) acc"] d by simp
  also have "\<dots> = map_of (fst acc @ harmonized_rows prefix (d # datasets))"
    using harmonize_rows_map_of [of prefix ag "stops ds" acc] d
    by (simp add: harmonized_rows_def)
  finally show ?case .
qed

lemma harmonize_datasets_distinct:
  "distinct (map fst (fst acc)) \<Longrightarrow>
   distinct (map fst (fst (fold (\<lambda>(ag, ds) acc. fold (harmonize_row prefix ag) (stops ds) acc)
      datasets acc)))"
proof (induction datasets arbitrary: acc)
  case Nil
  then show ?case by simp
next
  case (Cons d datasets)
  obtain ag ds where d: "d = (ag, ds)" by (cases d)
  show ?case using Cons.IH [of "fold (harmonize_row prefix ag) (stops ds) acc"] d Cons.prems
    by (simp add: harmonize_rows_distinct)
qed

lemma consolidated_lookup:
  "map_of (fst (harmonize_and_consolidate datasets prefix)) = map_of (harmonized_rows prefix datasets)"
  using harmonize_datasets_map_of [of prefix datasets "([], Map.empty)"]
  by (simp add: harmonize_and_consolidate_def)

lemma consolidated_distinct:
  "distinct (map fst (fst (harmonize_and_consolidate datasets prefix)))"
  using harmonize_datasets_distinct [of "([], Map.empty)" prefix datasets]
  by (simp add: harmonize_and_consolidate_def)

lemma consolidated_keys:
  "fst ` set (fst (harmonize_and_consolidate datasets prefix)) =
     fst ` set (harmonized_rows prefix datasets)"
proof -
  have "dom (map_of (fst (harmonize_and_consolidate datasets prefix))) =
     dom (map_of (harmonized_rows prefix datasets))"
    by (simp add: consolidated_lookup)
  then show ?thesis by (simp add: dom_map_of_conv_image_fst)
qed

lemma harmonized_rows_append:
  "harmonized_rows prefix (xs @ ys) = harmonized_rows prefix xs @ harmonized_rows prefix ys"
  by (simp add: harmonized_rows_def)

lemma harmonized_rows_mem:
  "(k, v) \<in> set (harmonized_rows prefix datasets) \<longleftrightarrow>
     (\<exists>ag ds row. (ag, ds) \<in> set datasets \<and> row \<in> set (stops ds) \<and> stop_id_of row \<noteq> []
        \<and> k = harmonized_id prefix ag (stop_id_of row) \<and> v = consolidated_row ag row)"
  by (auto simp: harmonized_rows_def)

lemma harmonized_rows_memI:
  "(ag, ds) \<in> set datasets \<Longrightarrow> row \<in> set (stops ds) \<Longrightarrow> stop_id_of row \<noteq> [] \<Longrightarrow>
   (harmonized_id prefix ag (stop_id_of row), consolidated_row ag row)
     \<in> set (harmonized_rows prefix datasets)"
  unfolding harmonized_rows_mem by blast

lemma consolidated_row_fields:
  "consolidated_row ag row ''_agency'' = Some ag"
  "consolidated_row ag row ''_orig_stop_id'' = Some (stop_id_of row)"
  by (simp_all add: consolidated_row_def)

lemma map_of_append_left:
  "k \<in> fst ` set xs \<Longrightarrow> map_of (xs @ ys) k = map_of xs k"
  by (induction xs) auto

lemma map_of_key_Some:
  "k \<in> fst ` set xs \<Longrightarrow> \<exists>v. map_of xs k = Some v"
  by (cases "map_of xs k") (auto simp: map_of_eq_None_iff)

lemma prefixed_retained:
  assumes mem: "(X, ds) \<in> set datasets" "row \<in> set (stops ds)" "stop_id_of row = S" "S \<noteq> []"
    and free: "\<forall>(ag, ds) \<in> set datasets. \<forall>row \<in> set (stops ds).
             stop_id_of row \<noteq> [] \<and> ag @ ''_'' @ stop_id_of row = X @ ''_'' @ S \<longrightarrow> ag = X"
  shows "stop_field (fst (harmonize_and_consolidate datasets True)) (X @ ''_'' @ S) ''_agency''
           = Some X
       \<and> stop_field (fst (harmonize_and_consolidate datasets True)) (X @ ''_'' @ S)
           ''_orig_stop_id'' = Some S"
proof -
  have "(harmonized_id True X (stop_id_of row), consolidated_row X row)
      \<in> set (harmonized_rows True datasets)"
    using mem by (intro harmonized_rows_memI) simp_all
  then have "(X @ ''_'' @ S, consolidated_row X row) \<in> set (harmonized_rows True datasets)"
    using mem(3) by (simp add: harmonized_id_def)
  then have "X @ ''_'' @ S \<in> fst ` set (harmonized_rows True datasets)"
    by (rule rev_image_eqI) simp
  from map_of_key_Some [OF this] obtain v
    where v: "map_of (harmonized_rows True datasets) (X @ ''_'' @ S) = Some v" by blast
  from map_of_SomeD [OF v] obtain ag ds' row' where
    m: "(ag, ds') \<in> set datasets" "row' \<in> set (stops ds')" "stop_id_of row' \<noteq> []"
      "X @ ''_'' @ S = harmonized_id True ag (stop_id_of row')" "v = consolidated_row ag row'"
    unfolding harmonized_rows_mem by blast
  from m(4) have eq: "ag @ ''_'' @ stop_id_of row' = X @ ''_'' @ S"
    by (simp add: harmonized_id_def)
  from free m(1) m(2) m(3) eq have "ag = X" by blast
  with eq have "stop_id_of row' = S" by simp
  with \<open>ag = X\<close> m(5) v show ?thesis
    by (simp add: stop_field_def consolidated_lookup consolidated_row_fields)
qed

lemma unprefixed_first:
  assumes dist: "distinct (map fst datasets)"
    and split: "datasets = pre @ (A, dsA) # mid @ (B, dsB) # post"
    and rA: "rA \<in> set (stops dsA)" "stop_id_of rA = S"
    and S: "S \<noteq> []"
  shows "\<exists>v. filter (\<lambda>e. fst e = S) (fst (harmonize_and_consolidate datasets False)) = [(S, v)]
          \<and> v ''_orig_stop_id'' = Some S
          \<and> v ''_agency'' \<noteq> Some B
          \<and> ((\<forall>(ag, ds) \<in> set pre. \<forall>row \<in> set (stops ds). stop_id_of row \<noteq> S)
               \<longrightarrow> v ''_agency'' = Some A)"
proof -
  let ?U = "fst (harmonize_and_consolidate datasets False)"
  let ?H1 = "harmonized_rows False (pre @ [(A, dsA)])"
  let ?H2 = "harmonized_rows False (mid @ (B, dsB) # post)"
  have "datasets = (pre @ [(A, dsA)]) @ (mid @ (B, dsB) # post)"
    using split by simp
  then have H: "harmonized_rows False datasets = ?H1 @ ?H2"
    by (simp only: harmonized_rows_append)
  have "(harmonized_id False A (stop_id_of rA), consolidated_row A rA) \<in> set ?H1"
    using rA S by (intro harmonized_rows_memI) simp_all
  then have "(S, consolidated_row A rA) \<in> set ?H1"
    using rA(2) by (simp add: harmonized_id_def)
  then have k1: "S \<in> fst ` set ?H1"
    by (rule rev_image_eqI) simp
  from map_of_key_Some [OF k1] obtain v where v: "map_of ?H1 S = Some v" by blast
  have lookup: "map_of ?U S = Some v"
    using v by (simp only: consolidated_lookup H map_of_append_left [OF k1])
  from map_of_SomeD [OF v] obtain ag ds row where
    m: "(ag, ds) \<in> set (pre @ [(A, dsA)])" "row \<in> set (stops ds)" "stop_id_of row \<noteq> []"
      "S = harmonized_id False ag (stop_id_of row)" "v = consolidated_row ag row"
    unfolding harmonized_rows_mem by blast
  have sid: "stop_id_of row = S" using m(4) by (simp add: harmonized_id_def)
  have "ag \<in> fst ` set (pre @ [(A, dsA)])"
    using m(1) by (rule rev_image_eqI) simp
  moreover have "B \<notin> fst ` set (pre @ [(A, dsA)])" using dist split by auto
  ultimately have agB: "ag \<noteq> B" by blast
  have first: "v ''_agency'' = Some A"
    if none: "\<forall>(ag, ds) \<in> set pre. \<forall>row \<in> set (stops ds). stop_id_of row \<noteq> S"
  proof -
    have "(ag, ds) \<notin> set pre" using none m(2) sid by blast
    with m(1) have "ag = A" by simp
    with m(5) show ?thesis by (simp add: consolidated_row_fields)
  qed
  have f: "filter (\<lambda>e. fst e = S) ?U = [(S, v)]"
    by (rule filter_key_distinct [OF consolidated_distinct lookup])
  have "v ''_orig_stop_id'' = Some S" "v ''_agency'' \<noteq> Some B"
    using m(5) sid agB by (simp_all add: consolidated_row_fields)
  with f first show ?thesis by blast
qed

lemma py_strip_plain:
  "s \<noteq> [] \<Longrightarrow> \<not> py_isspace (hd s) \<Longrightarrow> \<not> py_isspace (last s) \<Longrightarrow> py_strip s = s"
proof -
  assume s: "s \<noteq> []" and h: "\<not> py_isspace (hd s)" and l: "\<not> py_isspace (last s)"
  from s h have 1: "dropWhile py_isspace s = s" by (cases s) auto
  from s l have 2: "dropWhile py_isspace (rev s) = rev s"
    by (cases "rev s") (auto simp: last_rev [symmetric] hd_rev)
  show ?thesis by (simp add: py_strip_def 1 2)
qed

lemma stop_id_of_stop_row:
  "sid \<noteq> [] \<Longrightarrow> stop_id_of (stop_row sid lat lon) = py_strip sid"
  by (simp add: stop_id_of_def stop_row_def get_or_def)

lemma strip_examples:
  "py_strip ''B_C'' = ''B_C''" "py_strip ''C'' = ''C''" "py_strip ''7'' = ''7''"
  "py_strip '' 7'' = ''7''"
  by (simp_all add: py_strip_def py_isspace_def)

lemma concat_clash_result:
  "harmonize_and_consolidate concat_clash True =
     ([(''A_B_C'', consolidated_row ''A'' (stop_row ''B_C'' ''35.1'' ''33.3''))],
      [''A_B_C'' \<mapsto> ''A''])"
  by (simp add: harmonize_and_consolidate_def concat_clash_def only_stops_def harmonize_row_def
      stop_row_def get_or_def strip_examples consolidated_row_def stop_id_of_def Let_def)

text \<open>
  C9. Prefixed ids are the plain concatenation of agency, underscore and stop id, so two
  different pairs can give one id: agency \<open>A\<close> (file \<open>a.zip\<close>) with stop \<open>B_C\<close> and
  agency \<open>A_B\<close> (file \<open>a_b.zip\<close>) with stop \<open>C\<close> both give \<open>A_B_C\<close>. The harmonizer in
  prefixed mode then keeps one entry, the row of \<open>A\<close> met first, and the row of \<open>A_B\<close>
  is dropped.
\<close>

theorem prefixed_ids_not_injective:
  "agency_of_stem ''a'' = ''A'' \<and> agency_of_stem ''a_b'' = ''A_B''
   \<and> map (\<lambda>e. (fst e, map stop_id_of (stops (snd e)))) concat_clash
       = [(''A'', [''B_C'']), (''A_B'', [''C''])]
   \<and> harmonized_id True ''A'' ''B_C'' = ''A_B_C''
   \<and> harmonized_id True ''A_B'' ''C'' = ''A_B_C''
   \<and> map fst (fst (harmonize_and_consolidate concat_clash True)) = [''A_B_C'']
   \<and> stop_field (fst (harmonize_and_consolidate concat_clash True)) ''A_B_C'' ''_agency''
       = Some ''A''
   \<and> stop_field (fst (harmonize_and_consolidate concat_clash True)) ''A_B_C'' ''_orig_stop_id''
       = Some ''B_C''
   \<and> snd (harmonize_and_consolidate concat_clash True) ''A_B_C'' = Some ''A''"
proof -
  have 1: "agency_of_stem ''a'' = ''A''" "agency_of_stem ''a_b'' = ''A_B''"
    by (simp_all add: agency_of_stem_def word_char_def ascii_upper_char_def)
  have 2: "map (\<lambda>e. (fst e, map stop_id_of (stops (snd e)))) concat_clash
       = [(''A'', [''B_C'']), (''A_B'', [''C''])]"
    by (simp add: concat_clash_def only_stops_def stop_id_of_stop_row strip_examples)
  have 3: "harmonized_id True ''A'' ''B_C'' = ''A_B_C''"
    "harmonized_id True ''A_B'' ''C'' = ''A_B_C''"
    by (simp_all add: harmonized_id_def)
  have 4: "stop_id_of (stop_row ''B_C'' ''35.1'' ''33.3'') = ''B_C''"
    by (simp add: stop_id_of_stop_row strip_examples)
  show ?thesis
    by (simp add: 1 2 3 concat_clash_result stop_field_def consolidated_row_fields 4)
qed

lemma shared_clash_result:
  "harmonize_and_consolidate shared_clash True =
     ([(''A_B_C'', consolidated_row ''A'' (stop_row ''B_C'' ''35.1'' ''33.3'')),
       (''A_C'', consolidated_row ''A'' (stop_row ''C'' ''35.2'' ''33.4''))],
      [''A_B_C'' \<mapsto> ''A'', ''A_C'' \<mapsto> ''A''])"
  by (simp add: harmonize_and_consolidate_def shared_clash_def only_stops_def harmonize_row_def
      stop_row_def get_or_def strip_examples consolidated_row_def stop_id_of_def Let_def)

text \<open>
  C3. Agencies \<open>A\<close> and \<open>A_B\<close>, loaded in this order, both have a stop row with the
  stop id \<open>C\<close>; agency \<open>A\<close> also has a stop \<open>B_C\<close>, listed before it. In prefixed mode
  the id \<open>A_B_C\<close> of the stop \<open>C\<close> of \<open>A_B\<close> is the id of the stop \<open>B_C\<close> of \<open>A\<close>,
  which is met first: the consolidated dict has the keys \<open>A_B_C\<close> and \<open>A_C\<close> only, the
  entry of \<open>A_B_C\<close> holds the row of \<open>A\<close> (whole row, agency and original id), and the
  row of \<open>A_B\<close> is not retained.
\<close>

theorem shared_stop_id_clash_drops_row:
  "map (\<lambda>e. (fst e, map (\<lambda>r. r ''stop_id'') (stops (snd e)))) shared_clash
       = [(''A'', [Some ''B_C'', Some ''C'']), (''A_B'', [Some ''C''])]
   \<and> map fst (fst (harmonize_and_consolidate shared_clash True)) = [''A_B_C'', ''A_C'']
   \<and> stop_field (fst (harmonize_and_consolidate shared_clash True)) (''A_B'' @ ''_'' @ ''C'')
        ''_agency'' = Some ''A''
   \<and> stop_field (fst (harmonize_and_consolidate shared_clash True)) (''A_B'' @ ''_'' @ ''C'')
        ''_orig_stop_id'' = Some ''B_C''
   \<and> map_of (fst (harmonize_and_consolidate shared_clash True)) (''A_B'' @ ''_'' @ ''C'')
        = Some (consolidated_row ''A'' (stop_row ''B_C'' ''35.1'' ''33.3''))
   \<and> snd (harmonize_and_consolidate shared_clash True) (''A_B'' @ ''_'' @ ''C'') = Some ''A''"
proof -
  have 1: "stop_id_of (stop_row ''B_C'' ''35.1'' ''33.3'') = ''B_C''"
    by (simp add: stop_id_of_stop_row strip_examples)
  show ?thesis
    by (simp add: shared_clash_result stop_field_def consolidated_row_fields 1)
      (simp add: shared_clash_def only_stops_def stop_row_def)
qed

section \<open>Stop filter: which rows are kept\<close>

lemma clean_row_eq:
  "clean_row strtod lim (sid, row) clean =
     (if kept lim row then od_set clean sid (clean_of strtod lim sid row) else clean)"
  by (auto simp: clean_row_def kept_def clean_of_def py_float_def Let_def split: option.splits)

lemma fold_clean_row:
  "distinct (map fst cons) \<Longrightarrow> fst ` set acc \<inter> fst ` set cons = {} \<Longrightarrow>
   fold (clean_row strtod lim) cons acc =
     acc @ map (\<lambda>e. (fst e, clean_of strtod lim (fst e) (snd e)))
             (filter (\<lambda>e. kept lim (snd e)) cons)"
proof (induction cons arbitrary: acc)
  case Nil
  then show ?case by simp
next
  case (Cons e cons)
  obtain sid row where e: "e = (sid, row)" by (cases e)
  have none: "map_of acc sid = None"
    using Cons.prems(2) e by (auto simp: map_of_eq_None_iff)
  have d: "distinct (map fst cons)" using Cons.prems(1) by simp
  show ?case
  proof (cases "kept lim row")
    case True
    have step: "clean_row strtod lim e acc = acc @ [(sid, clean_of strtod lim sid row)]"
      using True e none by (simp add: clean_row_eq od_set_new)
    have disj: "fst ` set (acc @ [(sid, clean_of strtod lim sid row)]) \<inter> fst ` set cons = {}"
      using Cons.prems e by auto
    show ?thesis
      using Cons.IH [OF d disj] True e step by simp
  next
    case False
    have step: "clean_row strtod lim e acc = acc"
      using False e by (simp add: clean_row_eq)
    have disj: "fst ` set acc \<inter> fst ` set cons = {}"
      using Cons.prems e by auto
    show ?thesis
      using Cons.IH [OF d disj] False e step by simp
  qed
qed

lemma filter_and_clean_stops_eq:
  "distinct (map fst cons) \<Longrightarrow>
   filter_and_clean_stops strtod lim cons =
     map (\<lambda>e. (fst e, clean_of strtod lim (fst e) (snd e))) (filter (\<lambda>e. kept lim (snd e)) cons)"
  using fold_clean_row [of cons "[]" strtod lim]
  by (simp add: filter_and_clean_stops_def)

lemma clean_keys:
  assumes "distinct (map fst cons)" "(sid, row) \<in> set cons"
  shows "sid \<in> fst ` set (filter_and_clean_stops strtod lim cons) \<longleftrightarrow> kept lim row"
proof
  assume "sid \<in> fst ` set (filter_and_clean_stops strtod lim cons)"
  then obtain e where e: "e \<in> set cons" "kept lim (snd e)" "fst e = sid"
    by (auto simp: filter_and_clean_stops_eq [OF assms(1)])
  have "snd e = row"
    using assms e by (metis eq_key_imp_eq_value prod.collapse)
  with e show "kept lim row" by simp
next
  assume "kept lim row"
  with assms(2) have "(sid, clean_of strtod lim sid row)
      \<in> set (filter_and_clean_stops strtod lim cons)"
    by (force simp: filter_and_clean_stops_eq [OF assms(1)])
  then show "sid \<in> fst ` set (filter_and_clean_stops strtod lim cons)"
    by (rule rev_image_eqI) simp
qed

lemma clean_entry:
  assumes "distinct (map fst cons)" "(sid, c) \<in> set (filter_and_clean_stops strtod lim cons)"
  shows "\<exists>row. (sid, row) \<in> set cons \<and> kept lim row \<and> c = clean_of strtod lim sid row"
  using assms(2) by (auto simp: filter_and_clean_stops_eq [OF assms(1)])

lemma float_syntax_empty: "float_syntax [] = None"
  by (simp add: float_syntax_def num_strip_def split_sign_def parse_decimal_def)

lemma py_int_empty: "py_int lim [] = None"
  by (simp add: py_int_def num_strip_def split_sign_def digitpart_ok_def)

lemma py_int_zero: "py_int lim ''0'' = Some 0"
  by (simp add: py_int_def num_strip_def num_space_def split_sign_def digitpart_ok_def
      digitish_def is_digit_def digits_of_def nat_of_digits_def digit_value_def)

lemmas float_eval = float_syntax_def num_strip_def num_space_def split_sign_def
  ascii_lower_char_def parse_decimal_def parse_exponent_def digitish_def is_digit_def
  digitpart_ok_def digits_of_def nat_of_digits_def digit_value_def

lemma float_examples:
  "float_syntax ''nan'' = Some (Nan_lit False)"
  "float_syntax ''N/A'' = None"
  "float_syntax ''33.0'' = Some (Dec_lit False 330 (- 1))"
  "float_syntax ''33.3'' = Some (Dec_lit False 333 (- 1))"
  "float_syntax ''33.4'' = Some (Dec_lit False 334 (- 1))"
  "float_syntax ''33.5'' = Some (Dec_lit False 335 (- 1))"
  "float_syntax ''35.1'' = Some (Dec_lit False 351 (- 1))"
  "float_syntax ''35.2'' = Some (Dec_lit False 352 (- 1))"
  "float_syntax ''35.3'' = Some (Dec_lit False 353 (- 1))"
  by (simp_all add: float_eval)

lemmas int_eval = py_int_def num_strip_def num_space_def split_sign_def digitish_def
  is_digit_def digitpart_ok_def digits_of_def nat_of_digits_def digit_value_def

lemma int_examples:
  "py_int lim ''1'' = Some 1" "py_int lim ''2'' = Some 2" "py_int lim ''x'' = None"
  by (simp_all add: int_eval)

lemma strip_examples2:
  "py_strip ''1'' = ''1''" "py_strip ''2'' = ''2''" "py_strip ''x'' = ''x''"
  by (simp_all add: py_strip_def py_isspace_def)

lemma filter_input_fields:
  "lat_field (stop_row sid lat lon) = lat" "lon_field (stop_row sid lat lon) = lon"
  "lat_field ((stop_row sid lat lon)(''location_type'' \<mapsto> t)) = lat"
  "lon_field ((stop_row sid lat lon)(''location_type'' \<mapsto> t)) = lon"
  "lat_field (consolidated_row ag (stop_row sid lat lon)) = lat"
  "lon_field (consolidated_row ag (stop_row sid lat lon)) = lon"
  by (simp_all add: lat_field_def lon_field_def stop_row_def get_or_def consolidated_row_def)

lemma filter_input_types:
  "location_type_of lim (stop_row sid lat lon) = 0"
  "location_type_of lim (consolidated_row ag (stop_row sid lat lon)) = 0"
  "location_type_of lim ((stop_row sid lat lon)(''location_type'' \<mapsto> ''2'')) = 2"
  "location_type_of lim ((stop_row sid lat lon)(''location_type'' \<mapsto> ''x'')) = 0"
  by (simp_all add: location_type_of_def stop_row_def consolidated_row_def py_strip_def
      py_isspace_def py_int_zero int_examples)

lemma py_float_None: "py_float strtod s = None \<longleftrightarrow> float_syntax s = None"
  by (simp add: py_float_def)

lemma field_missing:
  "(row k = None \<or> row k = Some []) \<Longrightarrow> (row k' = None \<or> row k' = Some [])
     \<Longrightarrow> get_or (row k) (get_or (row k') []) = []"
  by (auto simp: get_or_def)

text \<open>
  What the stop filter does check: a consolidated stop row is in its output exactly when
  \<open>float\<close> accepts both coordinate fields and the location type is 0 or 1, so a row
  whose latitude or longitude is missing or is not a number for \<open>float\<close> is dropped.
\<close>

lemma coordinates_checked_by_parse:
  assumes "distinct (map fst cons)" and "(sid, row) \<in> set cons"
  shows "(sid \<in> fst ` set (filter_and_clean_stops strtod lim cons) \<longleftrightarrow>
            py_float strtod (lat_field row) \<noteq> None \<and> py_float strtod (lon_field row) \<noteq> None
            \<and> (location_type_of lim row = 0 \<or> location_type_of lim row = 1))
    \<and> (py_float strtod (lat_field row) = None \<or> py_float strtod (lon_field row) = None
         \<longrightarrow> sid \<notin> fst ` set (filter_and_clean_stops strtod lim cons))
    \<and> ((row ''stop_lat'' = None \<or> row ''stop_lat'' = Some [])
          \<and> (row ''lat'' = None \<or> row ''lat'' = Some [])
         \<longrightarrow> sid \<notin> fst ` set (filter_and_clean_stops strtod lim cons))
    \<and> ((row ''stop_lon'' = None \<or> row ''stop_lon'' = Some [])
          \<and> (row ''lon'' = None \<or> row ''lon'' = Some [])
         \<longrightarrow> sid \<notin> fst ` set (filter_and_clean_stops strtod lim cons))"
proof -
  have k: "sid \<in> fst ` set (filter_and_clean_stops strtod lim cons) \<longleftrightarrow> kept lim row"
    by (rule clean_keys [OF assms])
  have lat: "lat_field row = []"
    if "(row ''stop_lat'' = None \<or> row ''stop_lat'' = Some [])
          \<and> (row ''lat'' = None \<or> row ''lat'' = Some [])"
    using that by (simp add: lat_field_def field_missing)
  have lon: "lon_field row = []"
    if "(row ''stop_lon'' = None \<or> row ''stop_lon'' = Some [])
          \<and> (row ''lon'' = None \<or> row ''lon'' = Some [])"
    using that by (simp add: lon_field_def field_missing)
  show ?thesis
    unfolding k using lat lon by (auto simp: kept_def py_float_None float_syntax_empty)
qed

lemma nan_stop_clean:
  "filter_and_clean_stops strtod lim nan_stop =
     [(''A_1'', clean_of strtod lim ''A_1'' (consolidated_row ''A'' (stop_row ''1'' ''nan'' ''33.0'')))]"
  by (simp add: filter_and_clean_stops_eq nan_stop_def kept_def filter_input_fields
      float_examples filter_input_types)

text \<open>
  C2. The row whose \<open>stop_lat\<close> is \<open>nan\<close> and whose \<open>stop_lon\<close> is \<open>33.0\<close>: \<open>float\<close>
  accepts \<open>nan\<close> as the number that is not finite, and the stop filter keeps the row,
  with that latitude, in the CleanStop output. The check of the coordinates is only that
  \<open>float\<close> does not raise.
\<close>

theorem nan_latitude_is_kept:
  "map (\<lambda>e. (fst e, lat_field (snd e), lon_field (snd e))) nan_stop = [(''A_1'', ''nan'', ''33.0'')]
   \<and> py_float id ''nan'' = Some (Nan_lit False)
   \<and> map (\<lambda>e. (fst e, cs_stop_lat (snd e), cs_stop_lon (snd e)))
        (filter_and_clean_stops id 4300 nan_stop)
       = [(''A_1'', Nan_lit False, Dec_lit False 330 (- 1))]"
  by (simp add: nan_stop_clean clean_of_def filter_input_fields float_examples py_float_def)
    (simp add: nan_stop_def filter_input_fields)

lemma filter_input_distinct: "distinct (map fst filter_input)"
  by (simp add: filter_input_def)

lemma location_type_cases:
  "row ''location_type'' = None \<Longrightarrow> location_type_of lim row = 0"
  "row ''location_type'' = Some v \<Longrightarrow> py_strip v = [] \<Longrightarrow> location_type_of lim row = 0"
  "row ''location_type'' = Some v \<Longrightarrow> py_int lim (py_strip v) = None
     \<Longrightarrow> location_type_of lim row = 0"
  "row ''location_type'' = Some v \<Longrightarrow> py_int lim (py_strip v) = Some n
     \<Longrightarrow> location_type_of lim row = n"
proof -
  show "row ''location_type'' = None \<Longrightarrow> location_type_of lim row = 0"
    by (simp add: location_type_of_def py_strip_def py_int_zero)
  show "row ''location_type'' = Some v \<Longrightarrow> py_strip v = [] \<Longrightarrow> location_type_of lim row = 0"
    by (simp add: location_type_of_def py_int_zero)
  show "row ''location_type'' = Some v \<Longrightarrow> py_int lim (py_strip v) = None
     \<Longrightarrow> location_type_of lim row = 0"
    by (auto simp: location_type_of_def py_int_zero Let_def)
  show "row ''location_type'' = Some v \<Longrightarrow> py_int lim (py_strip v) = Some n
     \<Longrightarrow> location_type_of lim row = n"
    by (auto simp: location_type_of_def py_int_empty Let_def)
qed

text \<open>
  C4. For a consolidated stop row whose coordinates \<open>float\<close> accepts: when
  \<open>location_type\<close> is missing, blank, or not an integer for \<open>int\<close>, the row is kept
  with location type 0. Every record of the output has location type 0 or 1. A row whose
  \<open>location_type\<close> is an integer other than 0 and 1 (for example \<open>2\<close>) is not in the
  output.
\<close>

theorem location_type_default_and_range:
  assumes "distinct (map fst cons)" and "(sid, row) \<in> set cons"
  shows "(py_float strtod (lat_field row) \<noteq> None \<and> py_float strtod (lon_field row) \<noteq> None
          \<and> (row ''location_type'' = None
              \<or> (\<exists>v. row ''location_type'' = Some v
                    \<and> (py_strip v = [] \<or> py_int lim (py_strip v) = None)))
          \<longrightarrow> (\<exists>c. (sid, c) \<in> set (filter_and_clean_stops strtod lim cons)
                  \<and> cs_location_type c = 0))
    \<and> (\<forall>e \<in> set (filter_and_clean_stops strtod lim cons).
          cs_location_type (snd e) = 0 \<or> cs_location_type (snd e) = 1)
    \<and> (\<forall>v n. row ''location_type'' = Some v \<and> py_int lim (py_strip v) = Some n
              \<and> n \<noteq> 0 \<and> n \<noteq> 1
          \<longrightarrow> sid \<notin> fst ` set (filter_and_clean_stops strtod lim cons))"
proof (intro conjI impI allI ballI)
  assume a: "py_float strtod (lat_field row) \<noteq> None \<and> py_float strtod (lon_field row) \<noteq> None
          \<and> (row ''location_type'' = None
              \<or> (\<exists>v. row ''location_type'' = Some v
                    \<and> (py_strip v = [] \<or> py_int lim (py_strip v) = None)))"
  then have lt: "location_type_of lim row = 0"
    using location_type_cases(1-3) by blast
  with a have "kept lim row" by (simp add: kept_def py_float_None)
  with assms have "(sid, clean_of strtod lim sid row)
      \<in> set (filter_and_clean_stops strtod lim cons)"
    by (force simp: filter_and_clean_stops_eq)
  moreover have "cs_location_type (clean_of strtod lim sid row) = 0"
    using lt by (simp add: clean_of_def)
  ultimately show "\<exists>c. (sid, c) \<in> set (filter_and_clean_stops strtod lim cons)
      \<and> cs_location_type c = 0" by blast
next
  fix e assume "e \<in> set (filter_and_clean_stops strtod lim cons)"
  then have "(fst e, snd e) \<in> set (filter_and_clean_stops strtod lim cons)" by simp
  from clean_entry [OF assms(1) this] obtain r where
    "kept lim r" "snd e = clean_of strtod lim (fst e) r" by blast
  then show "cs_location_type (snd e) = 0 \<or> cs_location_type (snd e) = 1"
    by (simp add: kept_def clean_of_def)
next
  fix v n
  assume b: "row ''location_type'' = Some v \<and> py_int lim (py_strip v) = Some n
      \<and> n \<noteq> 0 \<and> n \<noteq> 1"
  then have "location_type_of lim row = n" using location_type_cases(4) by blast
  with b have "\<not> kept lim row" by (simp add: kept_def)
  then show "sid \<notin> fst ` set (filter_and_clean_stops strtod lim cons)"
    using clean_keys [OF assms, of strtod lim] by simp
qed

lemma filter_input_clean_keys:
  "map fst (filter_and_clean_stops strtod lim filter_input) = [''A_1'', ''A_4'', ''A_5'']"
  by (simp add: filter_and_clean_stops_eq filter_input_distinct)
    (simp add: filter_input_def kept_def stop_row_def float_examples lat_field_def
      lon_field_def get_or_def location_type_of_def py_strip_def py_isspace_def int_examples
      py_int_zero)

theorem location_type_default_and_range_witness:
  "distinct (map fst filter_input)
   \<and> (''A_4'', (stop_row ''4'' ''35.2'' ''33.4'')(''location_type'' \<mapsto> ''x'')) \<in> set filter_input
   \<and> (''A_3'', (stop_row ''3'' ''35.2'' ''33.4'')(''location_type'' \<mapsto> ''2'')) \<in> set filter_input
   \<and> py_int 4300 (py_strip ''x'') = None
   \<and> py_int 4300 (py_strip ''2'') = Some 2
   \<and> (\<exists>c. (''A_4'', c) \<in> set (filter_and_clean_stops id 4300 filter_input)
          \<and> cs_location_type c = 0)
 \<and> ''A_3'' \<notin> fst ` set (filter_and_clean_stops id 4300 filter_input)
   \<and> map fst (filter_and_clean_stops id 4300 filter_input) = [''A_1'', ''A_4'', ''A_5'']
   \<and> list_all (\<lambda>e. cs_location_type (snd e) = 0 \<or> cs_location_type (snd e) = 1)
        (filter_and_clean_stops id 4300 filter_input)"
proof -
  have m4: "(''A_4'', (stop_row ''4'' ''35.2'' ''33.4'')(''location_type'' \<mapsto> ''x''))
      \<in> set filter_input"
    and m3: "(''A_3'', (stop_row ''3'' ''35.2'' ''33.4'')(''location_type'' \<mapsto> ''2''))
      \<in> set filter_input"
    by (simp_all add: filter_input_def)
  have p: "py_int 4300 (py_strip ''x'') = None" "py_int 4300 (py_strip ''2'') = Some 2"
    by (simp_all add: strip_examples2 int_examples)
  note t4 = location_type_default_and_range [OF filter_input_distinct m4, of id 4300]
  note t3 = location_type_default_and_range [OF filter_input_distinct m3, of id 4300]
  have a: "\<exists>c. (''A_4'', c) \<in> set (filter_and_clean_stops id 4300 filter_input)
          \<and> cs_location_type c = 0"
    using t4 p(1) by (simp add: filter_input_fields float_examples py_float_def)
  have b: "\<forall>e \<in> set (filter_and_clean_stops id 4300 filter_input).
          cs_location_type (snd e) = 0 \<or> cs_location_type (snd e) = 1"
    using t4 by blast
  then have b': "list_all (\<lambda>e. cs_location_type (snd e) = 0 \<or> cs_location_type (snd e) = 1)
        (filter_and_clean_stops id 4300 filter_input)"
    by (simp add: list_all_iff)
  have c: "''A_3'' \<notin> fst ` set (filter_and_clean_stops id 4300 filter_input)"
    using t3 p(2) by simp
  show ?thesis
    using m4 m3 p a b' c filter_input_distinct filter_input_clean_keys by blast
qed

section \<open>Route index: what the two dicts hold\<close>

lemma route_row_eq:
  "route_row ag pfx r m =
     (if route_id_of r = [] then m
      else m(pfx @ route_id_of r \<mapsto> \<lparr> ri_route_id = pfx @ route_id_of r,
              route_short_name = short_name_of r,
              route_long_name = get_or (r ''route_long_name'') [], ri_agency = ag \<rparr>))"
  by (simp add: route_row_def route_id_of_def short_name_of_def Let_def)

lemma trip_row_eq:
  "trip_row pfx t m =
     (if trip_id_of t \<noteq> [] \<and> route_id_of t \<noteq> []
      then m(pfx @ trip_id_of t \<mapsto> pfx @ route_id_of t) else m)"
  by (simp add: trip_row_def route_id_of_def trip_id_of_def Let_def)

lemma fold_upd_entries:
  "fold (\<lambda>x m. if P x then m(key x \<mapsto> val x) else m) xs m =
     m ++ map_of (rev (map (\<lambda>x. (key x, val x)) (filter P xs)))"
proof (induction xs arbitrary: m)
  case Nil
  then show ?case by simp
next
  case (Cons x xs)
  show ?case
  proof (cases "P x")
    case True
    then show ?thesis
      by (intro ext) (simp add: Cons.IH map_add_def split: option.splits)
  next
    case False
    then show ?thesis by (simp add: Cons.IH)
  qed
qed

lemma fold_trip_row:
  "fold (trip_row pfx) ts m =
     m ++ map_of (rev (map (\<lambda>t. (pfx @ trip_id_of t, pfx @ route_id_of t))
        (filter (\<lambda>t. trip_id_of t \<noteq> [] \<and> route_id_of t \<noteq> []) ts)))"
proof -
  have "trip_row pfx = (\<lambda>t m. if trip_id_of t \<noteq> [] \<and> route_id_of t \<noteq> []
      then m(pfx @ trip_id_of t \<mapsto> pfx @ route_id_of t) else m)"
    by (intro ext) (simp add: trip_row_eq)
  then show ?thesis by (simp only: fold_upd_entries)
qed

lemma fold_route_row:
  "fold (route_row ag pfx) rs m =
     m ++ map_of (rev (map (\<lambda>r. (pfx @ route_id_of r,
                  \<lparr> ri_route_id = pfx @ route_id_of r,
                    route_short_name = short_name_of r,
                    route_long_name = get_or (r ''route_long_name'') [],
                    ri_agency = ag \<rparr>))
        (filter (\<lambda>r. route_id_of r \<noteq> []) rs)))"
proof -
  have "route_row ag pfx = (\<lambda>r m. if route_id_of r \<noteq> []
      then m(pfx @ route_id_of r \<mapsto> \<lparr> ri_route_id = pfx @ route_id_of r,
              route_short_name = short_name_of r,
              route_long_name = get_or (r ''route_long_name'') [], ri_agency = ag \<rparr>) else m)"
    by (intro ext) (simp add: route_row_eq)
  then show ?thesis by (simp only: fold_upd_entries)
qed

lemma build_route_mappings_fold:
  "fold (\<lambda>(ag, ds) acc.
             (fold (route_row ag (ag_prefix_of prefix ag)) (routes ds) (fst acc),
              fold (trip_row (ag_prefix_of prefix ag)) (trips ds) (snd acc))) datasets (ri, t2r)
   = (ri ++ map_of (rev (route_entries prefix datasets)),
      t2r ++ map_of (rev (trip_entries prefix datasets)))"
proof (induction datasets arbitrary: ri t2r)
  case Nil
  then show ?case by (simp add: route_entries_def trip_entries_def)
next
  case (Cons d datasets)
  obtain ag ds where d: "d = (ag, ds)" by (cases d)
  let ?step = "\<lambda>(ag, ds) acc.
             (fold (route_row ag (ag_prefix_of prefix ag)) (routes ds) (fst acc),
              fold (trip_row (ag_prefix_of prefix ag)) (trips ds) (snd acc))"
  let ?ri = "fold (route_row ag (ag_prefix_of prefix ag)) (routes ds) ri"
  let ?t2r = "fold (trip_row (ag_prefix_of prefix ag)) (trips ds) t2r"
  have "fold ?step (d # datasets) (ri, t2r) = fold ?step datasets (?ri, ?t2r)"
    by (simp add: d)
  also have "\<dots> = (?ri ++ map_of (rev (route_entries prefix datasets)),
      ?t2r ++ map_of (rev (trip_entries prefix datasets)))"
    by (rule Cons.IH)
  also have "?ri ++ map_of (rev (route_entries prefix datasets))
      = ri ++ map_of (rev (route_entries prefix (d # datasets)))"
    by (simp add: fold_route_row route_entries_def d)
  also have "?t2r ++ map_of (rev (trip_entries prefix datasets))
      = t2r ++ map_of (rev (trip_entries prefix (d # datasets)))"
    by (simp add: fold_trip_row trip_entries_def d)
  finally show ?case .
qed

lemma route_info_eq:
  "fst (build_route_mappings datasets prefix) = map_of (rev (route_entries prefix datasets))"
  by (simp add: build_route_mappings_def build_route_mappings_fold)

lemma trip_to_route_eq:
  "snd (build_route_mappings datasets prefix) = map_of (rev (trip_entries prefix datasets))"
  by (simp add: build_route_mappings_def build_route_mappings_fold)

lemma map_of_rev_unique:
  "(k, v) \<in> set xs \<Longrightarrow> \<forall>v'. (k, v') \<in> set xs \<longrightarrow> v' = v \<Longrightarrow> map_of (rev xs) k = Some v"
proof -
  assume m: "(k, v) \<in> set xs" and u: "\<forall>v'. (k, v') \<in> set xs \<longrightarrow> v' = v"
  from m have "k \<in> fst ` set (rev xs)" by (simp add: rev_image_eqI)
  from map_of_key_Some [OF this] obtain w where w: "map_of (rev xs) k = Some w" by blast
  from map_of_SomeD [OF w] have "(k, w) \<in> set xs" by simp
  with u w show ?thesis by simp
qed

section \<open>Join engine: the routes of a stop\<close>

lemma stop_time_row_eq:
  "stop_time_row prefix (ag_prefix_of prefix ag) t2r st m =
     (case st_triple prefix ag t2r st of
        None \<Rightarrow> m
      | Some x \<Rightarrow> m(fst x \<mapsto> insert (snd (snd x)) (routes_at m (fst x))))"
  by (simp add: stop_time_row_def st_triple_def stop_id_of_def trip_id_of_def ag_prefix_of_def
      routes_at_def Let_def split: option.splits)

lemma with_triples_Nil: "with_triples m [] = m"
  by (simp add: with_triples_def)

lemma with_triples_Cons:
  "with_triples m ((s, t, r) # ts) = with_triples (m(s \<mapsto> insert r (routes_at m s))) ts"
proof (rule ext)
  fix k
  show "with_triples m ((s, t, r) # ts) k
      = with_triples (m(s \<mapsto> insert r (routes_at m s))) ts k"
  proof (cases "k = s")
    case True
    show ?thesis
    proof (cases "s \<in> fst ` set ts")
      case True
      with \<open>k = s\<close> show ?thesis by (auto simp: with_triples_def routes_at_def)
    next
      case False
      then have "{r. \<exists>t. (s, t, r) \<in> set ts} = {}" by force
      with False \<open>k = s\<close> show ?thesis by (auto simp: with_triples_def routes_at_def)
    qed
  next
    case False
    then show ?thesis by (auto simp: with_triples_def routes_at_def)
  qed
qed

lemma with_triples_append:
  "with_triples m (xs @ ys) = with_triples (with_triples m xs) ys"
proof (induction xs arbitrary: m)
  case Nil
  then show ?case by (simp add: with_triples_Nil)
next
  case (Cons x xs)
  obtain s t r where x: "x = (s, t, r)" by (cases x)
  show ?case unfolding x by (simp only: append_Cons with_triples_Cons Cons.IH)
qed

lemma fold_stop_time_row:
  "fold (stop_time_row prefix (ag_prefix_of prefix ag) t2r) rows m =
     with_triples m (List.map_filter (st_triple prefix ag t2r) rows)"
proof (induction rows arbitrary: m)
  case Nil
  then show ?case by (simp add: with_triples_Nil map_filter_simps)
next
  case (Cons st rows)
  let ?f = "stop_time_row prefix (ag_prefix_of prefix ag) t2r"
  have step: "fold ?f (st # rows) m
      = with_triples (?f st m) (List.map_filter (st_triple prefix ag t2r) rows)"
    using Cons.IH [of "?f st m"] by simp
  show ?case
  proof (cases "st_triple prefix ag t2r st")
    case None
    then have "?f st m = m" by (simp add: stop_time_row_eq)
    with None step show ?thesis by (simp add: map_filter_simps)
  next
    case (Some x)
    obtain s t r where x: "x = (s, t, r)" by (cases x)
    with Some have "?f st m = m(s \<mapsto> insert r (routes_at m s))"
      by (simp add: stop_time_row_eq)
    with Some x step show ?thesis by (simp add: map_filter_simps with_triples_Cons)
  qed
qed

lemma fold_datasets_stop_times:
  "fold (\<lambda>(ag, ds) acc.
       fold (stop_time_row prefix (ag_prefix_of prefix ag) t2r) (stop_times ds) acc) datasets m
   = with_triples m (join_triples prefix datasets t2r)"
proof (induction datasets arbitrary: m)
  case Nil
  then show ?case by (simp add: join_triples_def with_triples_Nil)
next
  case (Cons d datasets)
  obtain ag ds where d: "d = (ag, ds)" by (cases d)
  let ?g = "\<lambda>(ag, ds) acc.
       fold (stop_time_row prefix (ag_prefix_of prefix ag) t2r) (stop_times ds) acc"
  have j: "join_triples prefix (d # datasets) t2r =
      List.map_filter (st_triple prefix ag t2r) (stop_times ds) @ join_triples prefix datasets t2r"
    by (simp add: join_triples_def d)
  have "fold ?g (d # datasets) m = fold ?g datasets
      (fold (stop_time_row prefix (ag_prefix_of prefix ag) t2r) (stop_times ds) m)"
    by (simp add: d)
  also have "\<dots> = with_triples
      (fold (stop_time_row prefix (ag_prefix_of prefix ag) t2r) (stop_times ds) m)
      (join_triples prefix datasets t2r)"
    by (rule Cons.IH)
  also have "\<dots> = with_triples
      (with_triples m (List.map_filter (st_triple prefix ag t2r) (stop_times ds)))
      (join_triples prefix datasets t2r)"
    by (simp only: fold_stop_time_row)
  finally show ?case by (simp only: j with_triples_append)
qed

lemma collect_stop_routes_eq:
  "collect_stop_routes datasets t2r prefix = with_triples Map.empty (join_triples prefix datasets t2r)"
  by (simp add: collect_stop_routes_def fold_datasets_stop_times)

lemma collect_stop_routes_at:
  "collect_stop_routes datasets t2r prefix k =
     (if k \<in> fst ` set (join_triples prefix datasets t2r)
      then Some {r. \<exists>t. (k, t, r) \<in> set (join_triples prefix datasets t2r)} else None)"
  by (simp add: collect_stop_routes_eq with_triples_def routes_at_def)

lemma finite_routes: "finite {r. \<exists>t. (k, t, r) \<in> set ts}"
proof -
  have "{r. \<exists>t. (k, t, r) \<in> set ts} \<subseteq> (\<lambda>x. snd (snd x)) ` set ts" by force
  then show ?thesis by (rule finite_subset) simp
qed

lemma sort_set_order:
  assumes "finite V" "set (order V) = V" "distinct (order V)"
  shows "sort (order V) = sorted_list_of_set V"
proof (rule sorted_distinct_set_unique)
  show "sorted (sort (order V))" by simp
  show "distinct (sort (order V))" using assms(3) by simp
  show "sorted (sorted_list_of_set V)" by simp
  show "distinct (sorted_list_of_set V)" by simp
  show "set (sort (order V)) = set (sorted_list_of_set V)" using assms(1,2) by simp
qed

lemma build_stop_to_routes_eq:
  assumes "\<forall>V. finite V \<longrightarrow> set (order V) = V \<and> distinct (order V)"
  shows "build_stop_to_routes order datasets t2r prefix k =
     (if k \<in> fst ` set (join_triples prefix datasets t2r)
      then Some (sorted_list_of_set {r. \<exists>t. (k, t, r) \<in> set (join_triples prefix datasets t2r)})
      else None)"
  using assms finite_routes [of k "join_triples prefix datasets t2r"]
  by (simp add: build_stop_to_routes_def collect_stop_routes_at sort_set_order)

lemma routes_serving_make_feature:
  "routes_serving (properties (make_feature sr ri item)) =
     map (display_route ri) (case sr (fst item) of None \<Rightarrow> [] | Some l \<Rightarrow> l)"
  by (simp add: make_feature_def Let_def)

lemma routes_serving_set:
  assumes "\<forall>V. finite V \<longrightarrow> set (order V) = V \<and> distinct (order V)"
  shows "set (routes_serving (properties
       (make_feature (build_stop_to_routes order datasets t2r prefix) ri item))) =
     display_route ri ` {r. \<exists>t. (fst item, t, r) \<in> set (join_triples prefix datasets t2r)}"
proof (cases "fst item \<in> fst ` set (join_triples prefix datasets t2r)")
  case True
  then show ?thesis
    using finite_routes [of "fst item" "join_triples prefix datasets t2r"]
    by (simp add: routes_serving_make_feature build_stop_to_routes_eq [OF assms])
next
  case False
  then have "{r. \<exists>t. (fst item, t, r) \<in> set (join_triples prefix datasets t2r)} = {}"
    by force
  with False show ?thesis
    by (simp add: routes_serving_make_feature build_stop_to_routes_eq [OF assms])
qed

section \<open>The features of a run\<close>

lemma coord_fields_consolidated:
  "lat_field (consolidated_row ag row) = lat_field row"
  "lon_field (consolidated_row ag row) = lon_field row"
  by (simp_all add: lat_field_def lon_field_def consolidated_row_def)

lemma coord_field_present:
  "row ''stop_lon'' \<noteq> None \<Longrightarrow> row ''stop_lon'' \<noteq> Some [] \<Longrightarrow> row ''stop_lon'' = Some (lon_field row)"
  "row ''stop_lat'' \<noteq> None \<Longrightarrow> row ''stop_lat'' \<noteq> Some [] \<Longrightarrow> row ''stop_lat'' = Some (lat_field row)"
  by (auto simp: lat_field_def lon_field_def get_or_def)

lemma features_stages:
  "features (stages rt prefix skip_enrich datasets) =
     map (make_feature
            (if \<not> skip_enrich
             then build_stop_to_routes (rt_set_order rt) datasets
                    (snd (build_route_mappings datasets prefix)) prefix
             else Map.empty)
            (fst (build_route_mappings datasets prefix)))
       (filter_and_clean_stops (rt_strtod rt) (rt_int_max_str_digits rt)
          (fst (harmonize_and_consolidate datasets prefix)))"
  by (simp add: stages_def create_geojson_def Let_def)

lemma map_of_distinct_mem:
  "distinct (map fst d) \<Longrightarrow> (k, v) \<in> set d \<Longrightarrow> map_of d k = Some v"
  by simp

text \<open>
  C5. Every feature of the output is a \<open>Point\<close> whose coordinates are longitude first,
  then latitude: the pair is \<open>[float(lon), float(lat)]\<close> of the longitude and latitude
  fields of the stop row that the harmonizer retained under the id of the feature
  (\<open>stop_lon\<close> and \<open>stop_lat\<close> when these are present and not empty).
\<close>

theorem coordinates_are_lon_lat_of_stop_row:
  assumes "f \<in> set (features (stages rt prefix skip_enrich datasets))"
  shows "g_type (geometry f) = ''Point''
    \<and> (\<exists>ag ds row lon lat.
          (ag, ds) \<in> set datasets \<and> row \<in> set (stops ds) \<and> stop_id_of row \<noteq> []
          \<and> f_id f = harmonized_id prefix ag (stop_id_of row)
          \<and> map_of (fst (harmonize_and_consolidate datasets prefix)) (f_id f)
               = Some (consolidated_row ag row)
          \<and> py_float (rt_strtod rt) (lon_field row) = Some lon
          \<and> py_float (rt_strtod rt) (lat_field row) = Some lat
          \<and> coordinates (geometry f) = [lon, lat]
          \<and> (row ''stop_lon'' \<noteq> None \<and> row ''stop_lon'' \<noteq> Some []
                \<longrightarrow> row ''stop_lon'' = Some (lon_field row))
          \<and> (row ''stop_lat'' \<noteq> None \<and> row ''stop_lat'' \<noteq> Some []
                \<longrightarrow> row ''stop_lat'' = Some (lat_field row)))"
proof -
  let ?cons = "fst (harmonize_and_consolidate datasets prefix)"
  let ?clean = "filter_and_clean_stops (rt_strtod rt) (rt_int_max_str_digits rt) ?cons"
  from assms obtain sr ri item where item: "item \<in> set ?clean"
    and f: "f = make_feature sr ri item"
    unfolding features_stages by auto
  obtain sid c where ic: "item = (sid, c)" by (cases item)
  have d: "distinct (map fst ?cons)" by (rule consolidated_distinct)
  from clean_entry [OF d] item ic obtain row' where
    r': "(sid, row') \<in> set ?cons" "kept (rt_int_max_str_digits rt) row'"
      "c = clean_of (rt_strtod rt) (rt_int_max_str_digits rt) sid row'"
    by blast
  have look: "map_of ?cons sid = Some row'"
    by (rule map_of_distinct_mem [OF d r'(1)])
  then have "(sid, row') \<in> set (harmonized_rows prefix datasets)"
    by (simp add: consolidated_lookup map_of_SomeD)
  then obtain ag ds row where
    m: "(ag, ds) \<in> set datasets" "row \<in> set (stops ds)" "stop_id_of row \<noteq> []"
      "sid = harmonized_id prefix ag (stop_id_of row)" "row' = consolidated_row ag row"
    unfolding harmonized_rows_mem by blast
  from r'(2) m(5) obtain a b where
    ab: "float_syntax (lon_field row) = Some a" "float_syntax (lat_field row) = Some b"
    by (auto simp: kept_def coord_fields_consolidated)
  have fid: "f_id f = sid" and pt: "g_type (geometry f) = ''Point''"
    and co: "coordinates (geometry f) = [rt_strtod rt a, rt_strtod rt b]"
    using f ic r'(3) m(5) ab
    by (simp_all add: make_feature_def clean_of_def Let_def coord_fields_consolidated)
  have pf: "py_float (rt_strtod rt) (lon_field row) = Some (rt_strtod rt a)"
    "py_float (rt_strtod rt) (lat_field row) = Some (rt_strtod rt b)"
    using ab by (simp_all add: py_float_def)
  from m look fid pf co coord_field_present [of row]
  have "(ag, ds) \<in> set datasets \<and> row \<in> set (stops ds) \<and> stop_id_of row \<noteq> []
          \<and> f_id f = harmonized_id prefix ag (stop_id_of row)
          \<and> map_of (fst (harmonize_and_consolidate datasets prefix)) (f_id f)
               = Some (consolidated_row ag row)
          \<and> py_float (rt_strtod rt) (lon_field row) = Some (rt_strtod rt a)
          \<and> py_float (rt_strtod rt) (lat_field row) = Some (rt_strtod rt b)
          \<and> coordinates (geometry f) = [rt_strtod rt a, rt_strtod rt b]
          \<and> (row ''stop_lon'' \<noteq> None \<and> row ''stop_lon'' \<noteq> Some []
                \<longrightarrow> row ''stop_lon'' = Some (lon_field row))
          \<and> (row ''stop_lat'' \<noteq> None \<and> row ''stop_lat'' \<noteq> Some []
                \<longrightarrow> row ''stop_lat'' = Some (lat_field row))"
    by simp
  with pt show ?thesis by blast
qed

text \<open>
  C6. When the run is configured to skip the enrichment, the join result given to the
  feature assembler is the empty dict, and every feature of the output has the empty
  list as \<open>routes_serving\<close>, whatever the tables hold.
\<close>

theorem skip_enrich_routes_serving_empty:
  assumes "main rt fs rd no_prefix True local downloaded = Inr geo"
  shows "(\<exists>clean_stops route_info.
            geo = create_geojson (rt_utcnow rt) clean_stops Map.empty route_info)
    \<and> (\<forall>f \<in> set (features geo). routes_serving (properties f) = [])"
proof -
  from assms obtain archives where "pipeline rt fs rd (\<not> no_prefix) True archives = Inr geo"
    by (auto simp: main_def Let_def split: option.splits if_splits)
  then obtain datasets where g: "geo = stages rt (\<not> no_prefix) True datasets"
    by (auto simp: pipeline_def split: sum.splits)
  have 1: "\<exists>clean_stops route_info.
      geo = create_geojson (rt_utcnow rt) clean_stops Map.empty route_info"
    unfolding g by (simp add: stages_def Let_def) blast
  have 2: "\<forall>f \<in> set (features geo). routes_serving (properties f) = []"
    unfolding g by (auto simp: features_stages routes_serving_make_feature)
  from 1 2 show ?thesis by blast
qed

lemma build_stop_to_routes_order:
  assumes "\<forall>V. finite V \<longrightarrow> set (o1 V) = V \<and> distinct (o1 V)"
    and "\<forall>V. finite V \<longrightarrow> set (o2 V) = V \<and> distinct (o2 V)"
  shows "build_stop_to_routes o1 datasets t2r prefix = build_stop_to_routes o2 datasets t2r prefix"
  by (rule ext) (simp only: build_stop_to_routes_eq [OF assms(1)] build_stop_to_routes_eq [OF assms(2)])

lemma stages_rerun:
  assumes "\<forall>V. finite V \<longrightarrow> set (rt_set_order rt1 V) = V \<and> distinct (rt_set_order rt1 V)"
    and "\<forall>V. finite V \<longrightarrow> set (rt_set_order rt2 V) = V \<and> distinct (rt_set_order rt2 V)"
    and "rt_strtod rt2 = rt_strtod rt1"
    and "rt_int_max_str_digits rt2 = rt_int_max_str_digits rt1"
  shows "stages rt2 prefix skip_enrich datasets =
     (stages rt1 prefix skip_enrich datasets)
       \<lparr> metadata := (metadata (stages rt1 prefix skip_enrich datasets))
            \<lparr> date_generated := rt_utcnow rt2 \<rparr> \<rparr>"
  using build_stop_to_routes_order [OF assms(1,2)] assms(3,4)
  by (simp add: stages_def create_geojson_def Let_def)

text \<open>
  C7. Two runs on the same input (file system, reader, options, archives) and the same
  interpreter, which may differ in the clock and in the order in which a set of strings
  is walked (the hash seed): the second run fails exactly as the first, or returns the
  document of the first with only \<open>date_generated\<close> replaced by its own timestamp.
\<close>

theorem rerun_differs_only_in_timestamp:
  assumes "\<forall>V. finite V \<longrightarrow> set (rt_set_order rt1 V) = V \<and> distinct (rt_set_order rt1 V)"
    and "\<forall>V. finite V \<longrightarrow> set (rt_set_order rt2 V) = V \<and> distinct (rt_set_order rt2 V)"
    and "rt_strtod rt2 = rt_strtod rt1"
    and "rt_int_max_str_digits rt2 = rt_int_max_str_digits rt1"
  shows "main rt2 fs rd no_prefix skip_enrich local downloaded =
     (case main rt1 fs rd no_prefix skip_enrich local downloaded of
        Inl e \<Rightarrow> Inl e
      | Inr geo \<Rightarrow> Inr (geo \<lparr> metadata := (metadata geo) \<lparr> date_generated := rt_utcnow rt2 \<rparr> \<rparr>))"
proof -
  have p: "pipeline rt2 fs rd prefix skip_enrich archives =
     (case pipeline rt1 fs rd prefix skip_enrich archives of
        Inl e \<Rightarrow> Inl e
      | Inr geo \<Rightarrow> Inr (geo \<lparr> metadata := (metadata geo) \<lparr> date_generated := rt_utcnow rt2 \<rparr> \<rparr>))"
    for prefix archives
    by (simp add: pipeline_def stages_rerun [OF assms] split: sum.splits)
  show ?thesis
    by (simp add: main_def Let_def p split: option.splits)
qed









lemma cy_archives: "load_gtfs_archives_from_local [cy_path] = [(''CY'', cy_path)]"
  by (simp add: load_gtfs_archives_from_local_def stem_def cy_path_def rfind_def
      agency_of_stem_def word_char_def ascii_upper_char_def)

lemma cy_candidates:
  "candidates (zip_of_tables [(''stops.txt'', a), (''routes.txt'', b), (''trips.txt'', c),
      (''stop_times.txt'', d)]) ''stops.txt'' = [''stops.txt'']"
  "candidates (zip_of_tables [(''stops.txt'', a), (''routes.txt'', b), (''trips.txt'', c),
      (''stop_times.txt'', d)]) ''routes.txt'' = [''routes.txt'']"
  "candidates (zip_of_tables [(''stops.txt'', a), (''routes.txt'', b), (''trips.txt'', c),
      (''stop_times.txt'', d)]) ''trips.txt'' = [''trips.txt'']"
  "candidates (zip_of_tables [(''stops.txt'', a), (''routes.txt'', b), (''trips.txt'', c),
      (''stop_times.txt'', d)]) ''stop_times.txt'' = [''stop_times.txt'']"
  by (simp_all add: zip_of_tables_def candidates_def py_lower_members endswith_def)

lemma cy_load: "load_dataset cy_fs Inr cy_path = Inr cy_dataset"
  by (simp add: load_dataset_def read_csv_from_zip_def cy_fs_def cy_candidates or_empty_def)
    (simp add: zip_of_tables_def cy_dataset_def cy_path_def)

lemma cy_extract: "extract_relevant_tables cy_fs Inr [(''CY'', cy_path)] = Inr [(''CY'', cy_dataset)]"
  by (simp add: extract_relevant_tables_def cy_load)

lemma cy_main:
  "main rt cy_fs Inr False skip_enrich (Some (Some [cy_path])) [] =
     Inr (stages rt True skip_enrich [(''CY'', cy_dataset)])"
  by (simp add: main_def cy_archives pipeline_def cy_extract)

lemma cy_consolidated:
  "fst (harmonize_and_consolidate [(''CY'', cy_dataset)] True) =
     [(''CY_S'', consolidated_row ''CY'' (stop_row ''S'' ''35.1'' ''33.3''))]"
  by (simp add: harmonize_and_consolidate_def cy_dataset_def harmonize_row_def
      stop_row_def get_or_def py_strip_def py_isspace_def consolidated_row_def stop_id_of_def Let_def)

lemma cy_clean:
  "filter_and_clean_stops strtod lim (fst (harmonize_and_consolidate [(''CY'', cy_dataset)] True)) =
     [(''CY_S'', clean_of strtod lim ''CY_S'' (consolidated_row ''CY'' (stop_row ''S'' ''35.1'' ''33.3'')))]"
  by (simp add: cy_consolidated filter_and_clean_stops_eq kept_def filter_input_fields
      float_examples filter_input_types)

lemma cy_feature_ids:
  "map f_id (features (stages rt True skip_enrich [(''CY'', cy_dataset)])) = [''CY_S'']"
  by (simp add: features_stages cy_clean make_feature_def Let_def)

theorem skip_enrich_routes_serving_empty_witness:
  "main interp_a cy_fs Inr False True (Some (Some [cy_path])) []
     = Inr (stages interp_a True True [(''CY'', cy_dataset)])
   \<and> map f_id (features (stages interp_a True True [(''CY'', cy_dataset)])) = [''CY_S'']
   \<and> map (\<lambda>f. routes_serving (properties f))
        (features (stages interp_a True True [(''CY'', cy_dataset)])) = [[]]"
proof -
  let ?F = "features (stages interp_a True True [(''CY'', cy_dataset)])"
  have m: "main interp_a cy_fs Inr False True (Some (Some [cy_path])) []
     = Inr (stages interp_a True True [(''CY'', cy_dataset)])"
    by (rule cy_main)
  from skip_enrich_routes_serving_empty [OF m]
  have all: "\<forall>f \<in> set ?F. routes_serving (properties f) = []" by blast
  have ids: "map f_id ?F = [''CY_S'']" by (rule cy_feature_ids)
  then obtain f where f: "?F = [f]" by auto
  with all have "map (\<lambda>f. routes_serving (properties f)) ?F = [[]]" by simp
  with m ids show ?thesis by blast
qed

theorem coordinates_are_lon_lat_of_stop_row_witness:
  "hd (features (stages interp_a True True [(''CY'', cy_dataset)]))
      \<in> set (features (stages interp_a True True [(''CY'', cy_dataset)]))
   \<and> f_id (hd (features (stages interp_a True True [(''CY'', cy_dataset)]))) = ''CY_S''
   \<and> g_type (geometry (hd (features (stages interp_a True True [(''CY'', cy_dataset)])))) = ''Point''
   \<and> (\<exists>lon lat. py_float id ''33.3'' = Some lon \<and> py_float id ''35.1'' = Some lat
        \<and> coordinates (geometry (hd (features (stages interp_a True True [(''CY'', cy_dataset)]))))
            = [lon, lat])"
proof -
  let ?F = "features (stages interp_a True True [(''CY'', cy_dataset)])"
  have ne: "?F \<noteq> []" using cy_feature_ids [of interp_a True] by auto
  then have h: "hd ?F \<in> set ?F" by simp
  have i: "f_id (hd ?F) = ''CY_S''"
    using cy_feature_ids [of interp_a True] ne by (cases ?F) auto
  from coordinates_are_lon_lat_of_stop_row [OF h]
  have "g_type (geometry (hd ?F)) = ''Point''"
    and "\<exists>lon lat. py_float id ''33.3'' = Some lon \<and> py_float id ''35.1'' = Some lat
        \<and> coordinates (geometry (hd ?F)) = [lon, lat]"
    by (auto simp: cy_dataset_def filter_input_fields interp_a_def)
  with h i show ?thesis by blast
qed

theorem rerun_differs_only_in_timestamp_witness:
  "rt_set_order interp_b {''a'', ''b''} \<noteq> rt_set_order interp_a {''a'', ''b''}
   \<and> rt_utcnow interp_b \<noteq> rt_utcnow interp_a
   \<and> main interp_a cy_fs Inr False False (Some (Some [cy_path])) []
       = Inr (stages interp_a True False [(''CY'', cy_dataset)])
   \<and> main interp_b cy_fs Inr False False (Some (Some [cy_path])) []
       = Inr ((stages interp_a True False [(''CY'', cy_dataset)])
           \<lparr> metadata := (metadata (stages interp_a True False [(''CY'', cy_dataset)]))
              \<lparr> date_generated := ''2024-01-02T00:00:00Z'' \<rparr> \<rparr>)"
proof -
  have v0: "\<forall>V. finite V \<longrightarrow> set (rt_set_order interp_a V) = V \<and> distinct (rt_set_order interp_a V)"
    and v1: "\<forall>V. finite V \<longrightarrow> set (rt_set_order interp_b V) = V \<and> distinct (rt_set_order interp_b V)"
    by (simp_all add: interp_a_def interp_b_def)
  have s: "rt_strtod interp_b = rt_strtod interp_a" "rt_int_max_str_digits interp_b = rt_int_max_str_digits interp_a"
    by (simp_all add: interp_a_def interp_b_def)
  have "sorted_list_of_set (set [''a'', ''b'']) = [''a'', ''b'']"
    by (simp only: sorted_list_of_set_sort_remdups) simp
  then have ab: "sorted_list_of_set {''a'', ''b''} = [''a'', ''b'']"
    by simp
  have d: "rt_set_order interp_b {''a'', ''b''} \<noteq> rt_set_order interp_a {''a'', ''b''}"
    "rt_utcnow interp_b \<noteq> rt_utcnow interp_a"
    by (simp_all add: interp_a_def interp_b_def ab)
  from rerun_differs_only_in_timestamp [OF v0 v1 s, of cy_fs Inr False False
      "Some (Some [cy_path])" "[]"]
  have "main interp_b cy_fs Inr False False (Some (Some [cy_path])) []
       = Inr ((stages interp_a True False [(''CY'', cy_dataset)])
           \<lparr> metadata := (metadata (stages interp_a True False [(''CY'', cy_dataset)]))
              \<lparr> date_generated := ''2024-01-02T00:00:00Z'' \<rparr> \<rparr>)"
    by (simp add: cy_main) (simp add: interp_b_def)
  with d cy_main [of interp_a False] show ?thesis by blast
qed

section \<open>Evaluating the join on given tables\<close>

lemma routes_of_triples:
  "{r. \<exists>t. (k, t, r) \<in> set ts} = set (map (\<lambda>x. snd (snd x)) (filter (\<lambda>x. fst x = k) ts))"
  by force

lemma stop_routes_eval:
  assumes "\<forall>V. finite V \<longrightarrow> set (order V) = V \<and> distinct (order V)"
  shows "build_stop_to_routes order datasets t2r prefix k =
     (case map (\<lambda>x. snd (snd x)) (filter (\<lambda>x. fst x = k) (join_triples prefix datasets t2r)) of
        [] \<Rightarrow> None
      | r # rs \<Rightarrow> Some (sort (remdups (r # rs))))"
proof (cases "k \<in> fst ` set (join_triples prefix datasets t2r)")
  case True
  then have "filter (\<lambda>x. fst x = k) (join_triples prefix datasets t2r) \<noteq> []"
    by (auto simp: filter_empty_conv)
  then obtain r rs where rs: "map (\<lambda>x. snd (snd x))
      (filter (\<lambda>x. fst x = k) (join_triples prefix datasets t2r)) = r # rs"
    by (cases "filter (\<lambda>x. fst x = k) (join_triples prefix datasets t2r)") auto
  have "sorted_list_of_set {r. \<exists>t. (k, t, r) \<in> set (join_triples prefix datasets t2r)}
      = sort (remdups (r # rs))"
    by (simp only: routes_of_triples rs sorted_list_of_set_sort_remdups)
  with True rs show ?thesis
    by (simp add: build_stop_to_routes_eq [OF assms])
next
  case False
  then have "filter (\<lambda>x. fst x = k) (join_triples prefix datasets t2r) = []"
    by (auto simp: filter_empty_conv)
  with False show ?thesis
    by (simp add: build_stop_to_routes_eq [OF assms])
qed

lemma interp_a_order:
  "\<forall>V. finite V \<longrightarrow> set (rt_set_order interp_a V) = V \<and> distinct (rt_set_order interp_a V)"
  by (simp add: interp_a_def)

lemma id_examples:
  "trip_id_of (trip_ex tid rid) = py_strip tid" "route_id_of (trip_ex tid rid) = py_strip rid"
  "route_id_of (route_ex rid n) = py_strip rid"
  "stop_id_of (stop_time_ex sid tid) = py_strip sid"
  "trip_id_of (stop_time_ex sid tid) = py_strip tid"
  by (simp_all add: trip_id_of_def route_id_of_def stop_id_of_def trip_ex_def route_ex_def
      stop_time_ex_def get_or_def)

lemma strip_examples3:
  "py_strip ''T'' = ''T''" "py_strip ''U'' = ''U''" "py_strip ''R'' = ''R''"
  "py_strip ''Q'' = ''Q''" "py_strip ''S'' = ''S''" "py_strip ''99'' = ''99''"
  "py_strip ''1'' = ''1''"
  by (simp_all add: py_strip_def py_isspace_def)










section \<open>Join correctness\<close>









lemma f_id_make_feature: "f_id (make_feature sr ri item) = fst item"
  by (simp add: make_feature_def Let_def)

lemma short_name_given: "r ''route_short_name'' = Some n \<Longrightarrow> n \<noteq> [] \<Longrightarrow> short_name_of r = n"
  by (simp add: short_name_of_def get_or_def)








lemma one_stop_consolidated:
  "fst (harmonize_and_consolidate [(''CY'', one_stop ro tr sti)] True) =
     [(''CY_S'', consolidated_row ''CY'' (stop_row ''S'' ''35.1'' ''33.3''))]"
  by (simp add: harmonize_and_consolidate_def one_stop_def harmonize_row_def
      stop_row_def get_or_def py_strip_def py_isspace_def consolidated_row_def stop_id_of_def Let_def)

lemma one_stop_clean:
  "filter_and_clean_stops strtod lim
     (fst (harmonize_and_consolidate [(''CY'', one_stop ro tr sti)] True)) =
     [(''CY_S'', clean_of strtod lim ''CY_S'' (consolidated_row ''CY'' (stop_row ''S'' ''35.1'' ''33.3'')))]"
  by (simp add: one_stop_consolidated filter_and_clean_stops_eq kept_def filter_input_fields
      float_examples filter_input_types)

lemma one_stop_features:
  "map (\<lambda>f. (f_id f, routes_serving (properties f)))
     (features (stages interp_a True False [(''CY'', one_stop ro tr sti)])) =
   [(''CY_S'', map (display_route (map_of (rev (route_entries True [(''CY'', one_stop ro tr sti)]))))
       (case map (\<lambda>x. snd (snd x)) (filter (\<lambda>x. fst x = ''CY_S'')
          (join_triples True [(''CY'', one_stop ro tr sti)]
             (map_of (rev (trip_entries True [(''CY'', one_stop ro tr sti)]))))) of
          [] \<Rightarrow> [] | r # rs \<Rightarrow> sort (remdups (r # rs))))]"
  by (simp add: features_stages one_stop_clean routes_serving_make_feature f_id_make_feature
      stop_routes_eval [OF interp_a_order] trip_to_route_eq route_info_eq split: list.splits)

lemma one_stop_tables:
  "routes (one_stop ro tr sti) = ro" "trips (one_stop ro tr sti) = tr"
  "stop_times (one_stop ro tr sti) = sti"
  by (simp_all add: one_stop_def)

lemma short_name_route_ex: "short_name_of (route_ex rid n) = (if n = [] then rid else n)"
  by (simp add: short_name_of_def route_ex_def get_or_def)

lemmas join_eval = join_triples_def trip_entries_def route_entries_def one_stop_tables
  id_examples strip_examples3 st_triple_def ag_prefix_of_def map_filter_simps
  display_route_def short_name_route_ex



text \<open>
  The last row of an id wins in both indexes: when a later trips row has the id of \<open>T\<close>
  with another route, or a later routes row has the id of \<open>R\<close> with another short name,
  \<open>12\<close> is not in the list of \<open>S\<close>.
\<close>

lemma duplicate_ids_last_row_wins:
  "map (\<lambda>f. (f_id f, routes_serving (properties f)))
     (features (stages interp_a True False
        [(''CY'', one_stop [route_ex ''R'' ''12'', route_ex ''Q'' ''7'']
                    [trip_ex ''T'' ''R'', trip_ex ''T'' ''Q'']
                    [stop_time_ex ''S'' ''T''])]))
     = [(''CY_S'', [''7''])]"
  "map (\<lambda>f. (f_id f, routes_serving (properties f)))
     (features (stages interp_a True False
        [(''CY'', one_stop [route_ex ''R'' ''12'', route_ex ''R'' ''13'']
                    [trip_ex ''T'' ''R'']
                    [stop_time_ex ''S'' ''T''])]))
     = [(''CY_S'', [''13''])]"
  by (simp_all add: one_stop_features join_eval)





end
